theory Spec2Isabelle
  imports Complex_Main "HOL-Library.AList" "HOL-Library.Product_Lexorder"
    "HOL-Library.Multiset" "HOL-Library.Log_Nat"
begin

section \<open>Session and memory orchestration: embedding of the Python sources\<close>

text \<open>
  Python dictionaries keep insertion order, and several functions below depend on it
  (eviction order of the cache, iteration order of the indexes).  A dictionary is
  therefore an association list with distinct keys: \<open>map_of\<close> reads a key,
  \<open>AList.update\<close> is \<open>d[k] = v\<close> (a present key keeps its position, a new key goes
  to the end).
\<close>

subsection \<open>\<open>shared/enhanced_memory.py\<close>: class \<open>LRUCache\<close>\<close>

type_synonym ('k, 'v) ordered_dict = "('k \<times> 'v) list"

record 'v LRUCache =
  cache :: "(string, 'v) ordered_dict"
  capacity :: int

definition keys :: "('k, 'v) ordered_dict \<Rightarrow> 'k list" where
  "keys d = map fst d"

text \<open>
  \<open>OrderedDict.move_to_end(key)\<close>: the item becomes the last one.  Python raises
  \<open>KeyError\<close> for a missing key; both callers test \<open>key in self.cache\<close> first, so
  the missing-key branch (the dictionary unchanged here) is never taken by them.
\<close>

definition move_to_end :: "'k \<Rightarrow> ('k, 'v) ordered_dict \<Rightarrow> ('k, 'v) ordered_dict" where
  "move_to_end k d =
     (case map_of d k of
        None \<Rightarrow> d
      | Some v \<Rightarrow> filter (\<lambda>p. fst p \<noteq> k) d @ [(k, v)])"

text \<open>\<open>OrderedDict.popitem(last=False)\<close> on a non-empty dictionary drops the first item.\<close>

definition popitem_first :: "('k, 'v) ordered_dict \<Rightarrow> ('k, 'v) ordered_dict" where
  "popitem_first d = tl d"

definition new_cache :: "int \<Rightarrow> 'v LRUCache" where
  "new_cache c = \<lparr>cache = [], capacity = c\<rparr>"

definition lru_get :: "'v LRUCache \<Rightarrow> string \<Rightarrow> 'v option \<times> 'v LRUCache" where
  "lru_get c k =
     (if k \<notin> set (keys (cache c)) then (None, c)
      else let d = move_to_end k (cache c) in (map_of d k, c\<lparr>cache := d\<rparr>))"

definition lru_put :: "'v LRUCache \<Rightarrow> string \<Rightarrow> 'v \<Rightarrow> 'v LRUCache" where
  "lru_put c k v =
     (let d1 = (if k \<in> set (keys (cache c)) then move_to_end k (cache c) else cache c);
          d2 = AList.update k v d1
      in if int (length d2) > capacity c then c\<lparr>cache := popitem_first d2\<rparr>
         else c\<lparr>cache := d2\<rparr>)"

definition lru_clear :: "'v LRUCache \<Rightarrow> 'v LRUCache" where
  "lru_clear c = c\<lparr>cache := []\<rparr>"

datatype 'v cache_op = Put string 'v | Get string

fun cache_step :: "'v LRUCache \<Rightarrow> 'v cache_op \<Rightarrow> 'v LRUCache" where
  "cache_step c (Put k v) = lru_put c k v"
| "cache_step c (Get k) = snd (lru_get c k)"

definition cache_run :: "'v LRUCache \<Rightarrow> 'v cache_op list \<Rightarrow> 'v LRUCache" where
  "cache_run c ops = foldl cache_step c ops"

definition put_all :: "'v LRUCache \<Rightarrow> (string \<times> 'v) list \<Rightarrow> 'v LRUCache" where
  "put_all c kvs = foldl (\<lambda>c (k, v). lru_put c k v) c kvs"

text \<open>The state predicate of a cache: distinct keys, and no more of them than the capacity.\<close>

definition cache_ok :: "'v LRUCache \<Rightarrow> bool" where
  "cache_ok c \<longleftrightarrow> distinct (keys (cache c)) \<and> int (length (cache c)) \<le> capacity c"

subsection \<open>Python built-ins used by the sources\<close>

text \<open>
  Exceptions that leave a modelled function are values of \<open>py_error\<close>.

  A Python \<open>str\<close> is carried as a list of characters (its UTF-8 bytes), so that two
  texts are equal when the lists are, and a text is empty when the list is.  The methods
  of \<open>str\<close> that the sources call (\<open>lower\<close>, \<open>split\<close>, \<open>strip\<close>) and \<open>json.loads\<close>
  are parameters of the functions that call them: what is proved holds for every
  function in their place, hence for Python's.

  A Python \<open>float\<close> is an IEEE 754 double.  The finite doubles are rational numbers
  (\<open>pyfloat\<close>): a float that is only stored and compared is such a number, and an
  arithmetic operation is the exact operation followed by rounding to the nearest double,
  ties to even (\<open>round_double\<close>).  A double has a significand of 53 bits, and the last
  bit has an exponent of at least -1074.  The largest double is just below \<open>2 ^ 1024\<close>;
  the numbers that are rounded here are at most 2 (\<open>similarity_in_range\<close> below), so the
  overflow to infinity is left out.  A literal such as \<open>0.4\<close> is the double nearest to the
  decimal, and \<open>a / b\<close> on two ints is the correctly rounded quotient, or
  \<open>ZeroDivisionError\<close>.
\<close>

datatype py_error =
    FileNotFoundError | AttributeError | QueueFull | OSError | OverflowError
  | JSONDecodeError | UnicodeDecodeError | RecursionError | ValueError | ZeroDivisionError

type_synonym pyfloat = rat

definition round_half_even :: "rat \<Rightarrow> int" where
  "round_half_even x =
     (let n = \<lfloor>x\<rfloor>; r = x - of_int n
      in if r < 1 / 2 then n else if 1 / 2 < r then n + 1 else if even n then n else n + 1)"

text \<open>
  The exponent \<open>e\<close> with \<open>2 ^ e \<le> x < 2 ^ (e + 1)\<close> of a positive \<open>x\<close>, from the
  number of bits of an integer (\<open>bitlen\<close>).
\<close>

definition floor_log2 :: "rat \<Rightarrow> int" where
  "floor_log2 x = (if 1 \<le> x then bitlen \<lfloor>x\<rfloor> - 1 else - bitlen (\<lceil>1 / x\<rceil> - 1))"

definition round_double :: "rat \<Rightarrow> pyfloat" where
  "round_double x =
     (if x = 0 then 0
      else let q = max (floor_log2 \<bar>x\<bar> - 52) (- 1074)
           in of_int (round_half_even (x / 2 powi q)) * 2 powi q)"

definition float_of_decimal :: "rat \<Rightarrow> pyfloat" where
  "float_of_decimal x = round_double x"

definition float_add :: "pyfloat \<Rightarrow> pyfloat \<Rightarrow> pyfloat" where
  "float_add x y = round_double (x + y)"

definition float_mul :: "pyfloat \<Rightarrow> pyfloat \<Rightarrow> pyfloat" where
  "float_mul x y = round_double (x * y)"


text \<open>The slice \<open>xs[:n]\<close>: a negative \<open>n\<close> counts from the end.\<close>

definition slice_to :: "int \<Rightarrow> 'a list \<Rightarrow> 'a list" where
  "slice_to n xs = (if 0 \<le> n then take (nat n) xs else take (length xs - nat (- n)) xs)"

text \<open>
  \<open>list.sort(key=f, reverse=True)\<close>: descending by key, and stable (items with equal
  keys keep their order).
\<close>

fun insort_desc :: "('a \<Rightarrow> 'k::linorder) \<Rightarrow> 'a \<Rightarrow> 'a list \<Rightarrow> 'a list" where
  "insort_desc f x [] = [x]"
| "insort_desc f x (y # ys) = (if f y \<le> f x then x # y # ys else y # insort_desc f x ys)"

definition sort_desc :: "('a \<Rightarrow> 'k::linorder) \<Rightarrow> 'a list \<Rightarrow> 'a list" where
  "sort_desc f xs = foldr (insort_desc f) xs []"

subsection \<open>\<open>shared/session_manager.py\<close>: class \<open>SessionManager\<close>\<close>

text \<open>
  A point in time is an integer (microseconds since the epoch).  The sources store
  \<open>datetime.now().isoformat()\<close>; the text is represented by the instant it denotes (the
  ISO texts written by the sources compare as the instants do), and the clock reading of
  a call is an argument of the modelled function.
\<close>

type_synonym timestamp = int

record SessionMetadata =
  session_id :: string
  created_at :: timestamp
  status :: string
  product_name :: "string option"
  workflow_type :: string
  duration_seconds :: pyfloat
  agent_count :: int
  error_count :: int
  quality_score :: "pyfloat option"
  completed_at :: "timestamp option"
  archived_at :: "timestamp option"

text \<open>
  The manager's state: the index (a dictionary in insertion order), the retention period,
  and the part of the file system the modelled functions depend on, namely the set of
  session ids whose directory \<open>sessions_root / session_id\<close> exists.
\<close>

record SessionManager =
  sessions_index :: "(string, SessionMetadata) ordered_dict"
  retention_days :: int
  session_dirs :: "string set"

text \<open>
  \<open>update_session\<close>.  The metadata object is mutated in place, so the index sees the
  new fields even when \<open>_save_session_metadata\<close> afterwards fails to open the manifest
  in a directory that no longer exists; that exception leaves the function.
\<close>

definition update_session ::
  "SessionManager \<Rightarrow> timestamp \<Rightarrow> string \<Rightarrow> string option \<Rightarrow> pyfloat option \<Rightarrow> int option
     \<Rightarrow> int option \<Rightarrow> pyfloat option \<Rightarrow> py_error option \<times> SessionManager" where
  "update_session st now sid new_status duration new_agent_count new_error_count new_quality =
     (case map_of (sessions_index st) sid of
        None \<Rightarrow> (None, st)
      | Some metadata \<Rightarrow>
          let m1 = (case new_status of
                      None \<Rightarrow> metadata
                    | Some s \<Rightarrow>
                        if s = [] then metadata
                        else if s \<in> set [''completed'', ''failed'']
                          then metadata\<lparr>status := s, completed_at := Some now\<rparr>
                          else metadata\<lparr>status := s\<rparr>);
              m2 = (case duration of None \<Rightarrow> m1 | Some d \<Rightarrow> m1\<lparr>duration_seconds := d\<rparr>);
              m3 = (case new_agent_count of None \<Rightarrow> m2 | Some n \<Rightarrow> m2\<lparr>agent_count := n\<rparr>);
              m4 = (case new_error_count of None \<Rightarrow> m3 | Some n \<Rightarrow> m3\<lparr>error_count := n\<rparr>);
              m5 = (case new_quality of None \<Rightarrow> m4 | Some q \<Rightarrow> m4\<lparr>quality_score := Some q\<rparr>);
              st' = st\<lparr>sessions_index := AList.update sid m5 (sessions_index st)\<rparr>
          in if sid \<in> session_dirs st then (None, st') else (Some FileNotFoundError, st'))"

definition get_session_metadata :: "SessionManager \<Rightarrow> string \<Rightarrow> SessionMetadata option" where
  "get_session_metadata st sid = map_of (sessions_index st) sid"

definition list_sessions ::
  "SessionManager \<Rightarrow> string option \<Rightarrow> int option \<Rightarrow> SessionMetadata list" where
  "list_sessions st status_filter limit =
     (let sessions = map snd (sessions_index st);
          sessions = (case status_filter of
                        None \<Rightarrow> sessions
                      | Some s \<Rightarrow> if s = [] then sessions
                                  else filter (\<lambda>m. status m = s) sessions);
          sessions = sort_desc created_at sessions
      in case limit of
           None \<Rightarrow> sessions
         | Some n \<Rightarrow> if n = 0 then sessions else slice_to n sessions)"
















subsection \<open>\<open>shared/async_logger.py\<close>: class \<open>AsyncLogger\<close>\<close>

datatype LogLevel = DEBUG | INFO | WARNING | ERROR | SUCCESS | METRIC

datatype EventType =
    SESSION_STARTED | SESSION_COMPLETED | AGENT_STARTED | AGENT_COMPLETED | AGENT_ERROR
  | TOOL_CALLED | TOOL_COMPLETED | MEMORY_STORED | MEMORY_RETRIEVED | WORKFLOW_STAGE
  | VALIDATION_RESULT | METRIC_RECORDED

fun level_value :: "LogLevel \<Rightarrow> string" where
  "level_value DEBUG = ''DEBUG''"
| "level_value INFO = ''INFO''"
| "level_value WARNING = ''WARNING''"
| "level_value ERROR = ''ERROR''"
| "level_value SUCCESS = ''SUCCESS''"
| "level_value METRIC = ''METRIC''"

fun event_type_value :: "EventType \<Rightarrow> string" where
  "event_type_value SESSION_STARTED = ''session_started''"
| "event_type_value SESSION_COMPLETED = ''session_completed''"
| "event_type_value AGENT_STARTED = ''agent_started''"
| "event_type_value AGENT_COMPLETED = ''agent_completed''"
| "event_type_value AGENT_ERROR = ''agent_error''"
| "event_type_value TOOL_CALLED = ''tool_called''"
| "event_type_value TOOL_COMPLETED = ''tool_completed''"
| "event_type_value MEMORY_STORED = ''memory_stored''"
| "event_type_value MEMORY_RETRIEVED = ''memory_retrieved''"
| "event_type_value WORKFLOW_STAGE = ''workflow_stage''"
| "event_type_value VALIDATION_RESULT = ''validation_result''"
| "event_type_value METRIC_RECORDED = ''metric_recorded''"

record 'd LogEvent =
  timestamp :: timestamp
  session_id :: string
  event_type :: string
  level :: string
  agent_id :: "string option"
  agent_name :: "string option"
  message :: string
  data :: "(string \<times> 'd) list"
  duration_ms :: "pyfloat option"
  parent_event_id :: "string option"
  event_id :: string

text \<open>
  The logger's state as far as \<open>log\<close> touches it: the session id, the bounded queue
  (\<open>queue.Queue(maxsize=buffer_size)\<close>, unbounded when \<open>maxsize \<le> 0\<close>) and the two
  counters.  The worker thread that drains the queue is not part of the model.
\<close>

record 'd AsyncLogger =
  logger_session_id :: string
  log_queue :: "'d LogEvent list"
  maxsize :: int
  events_logged :: int
  events_dropped :: int

text \<open>\<open>Queue.put_nowait\<close>: raises \<open>queue.Full\<close> instead of waiting for a free slot.\<close>

definition put_nowait :: "'a list \<Rightarrow> int \<Rightarrow> 'a \<Rightarrow> py_error + 'a list" where
  "put_nowait q bound x =
     (if 0 < bound \<and> bound \<le> int (length q) then Inl QueueFull else Inr (q @ [x]))"

text \<open>
  \<open>log\<close>.  The clock reading \<open>now\<close> and the event id derived from \<open>time.time()\<close> are
  arguments.  The bare \<open>except\<close> turns every exception of \<open>put_nowait\<close> into a drop.
\<close>

definition log ::
  "'d AsyncLogger \<Rightarrow> timestamp \<Rightarrow> string \<Rightarrow> EventType \<Rightarrow> LogLevel \<Rightarrow> string \<Rightarrow> string option
     \<Rightarrow> string option \<Rightarrow> (string \<times> 'd) list option \<Rightarrow> pyfloat option \<Rightarrow> string option
     \<Rightarrow> string \<times> 'd AsyncLogger" where
  "log lg now new_id etype lvl msg aid aname dat dur parent =
     (let event = \<lparr>timestamp = now, session_id = logger_session_id lg,
                    event_type = event_type_value etype, level = level_value lvl,
                    agent_id = aid, agent_name = aname, message = msg,
                    data = (case dat of None \<Rightarrow> [] | Some d \<Rightarrow> d),
                    duration_ms = dur, parent_event_id = parent, event_id = new_id\<rparr>
      in case put_nowait (log_queue lg) (maxsize lg) event of
           Inr q \<Rightarrow> (event_id event, lg\<lparr>log_queue := q\<rparr>)
         | Inl e \<Rightarrow> (event_id event, lg\<lparr>events_dropped := events_dropped lg + 1\<rparr>))"

definition queue_full :: "'d AsyncLogger \<Rightarrow> bool" where
  "queue_full lg \<longleftrightarrow> 0 < maxsize lg \<and> maxsize lg \<le> int (length (log_queue lg))"

text \<open>
  \<open>read_logs\<close> reads a log file back.  It starts with \<open>flush()\<close>, that is
  \<open>Queue.join()\<close>, which returns once the worker thread has marked every queued event as
  done and otherwise blocks for ever; \<open>joins\<close> says which, and a call that does not
  return is \<open>None\<close>.  The file system maps a file name in the session's log directory to
  the state of the file: absent (\<open>exists()\<close> is false), not readable (\<open>exists()\<close> or
  \<open>open\<close> raises), or open with the sequence of what the iteration \<open>for line in f\<close>
  yields, each item a line or an exception (\<open>UnicodeDecodeError\<close> where the bytes are not
  UTF-8), which is raised outside the \<open>try\<close> of the loop body.  \<open>str.strip\<close> and
  \<open>json.loads\<close> are the parameters \<open>strip\<close> and \<open>loads\<close>; \<open>loads\<close> returns a JSON
  value or raises, and of its exceptions only \<open>JSONDecodeError\<close> is caught.  A parsed
  line is any JSON value; only an object has \<open>.get\<close>, on anything else the call raises
  \<open>AttributeError\<close>, which is not caught either.  The files are read as they are
  once \<open>flush()\<close> has returned.
\<close>

datatype json =
    JNull | JBool bool | JNum rat | JStr string | JArr "json list" | JObj "(string \<times> json) list"

datatype log_file = NoFile | OpenRaises py_error | Yields "(py_error + string) list"

definition dict_get :: "json \<Rightarrow> string \<Rightarrow> py_error + json option" where
  "dict_get j k = (case j of JObj d \<Rightarrow> Inr (map_of d k) | _ \<Rightarrow> Inl AttributeError)"

text \<open>
  One filter test of the loop, \<open>if f and event.get(key) != f: continue\<close>: \<open>Inr True\<close>
  when the line is to be skipped.
\<close>

definition filter_rejects :: "string option \<Rightarrow> string \<Rightarrow> json \<Rightarrow> py_error + bool" where
  "filter_rejects f k event =
     (case f of
        None \<Rightarrow> Inr False
      | Some v \<Rightarrow>
          if v = [] then Inr False
          else (case dict_get event k of
                  Inl e \<Rightarrow> Inl e
                | Inr r \<Rightarrow> Inr (r \<noteq> Some (JStr v))))"

definition limit_reached :: "int option \<Rightarrow> 'a list \<Rightarrow> bool" where
  "limit_reached limit events =
     (case limit of None \<Rightarrow> False | Some n \<Rightarrow> n \<noteq> 0 \<and> n \<le> int (length events))"

fun read_loop ::
  "(string \<Rightarrow> py_error + json) \<Rightarrow> (string \<Rightarrow> string) \<Rightarrow> string option \<Rightarrow> string option
     \<Rightarrow> int option \<Rightarrow> (py_error + string) list \<Rightarrow> json list \<Rightarrow> py_error + json list" where
  "read_loop loads strip etype lvl limit [] events = Inr events"
| "read_loop loads strip etype lvl limit (Inl e # rest) events = Inl e"
| "read_loop loads strip etype lvl limit (Inr line # rest) events =
     (case loads (strip line) of
        Inl e \<Rightarrow>
          if e = JSONDecodeError then read_loop loads strip etype lvl limit rest events
          else Inl e
      | Inr event \<Rightarrow>
          (case filter_rejects etype ''event_type'' event of
             Inl e \<Rightarrow> Inl e
           | Inr True \<Rightarrow> read_loop loads strip etype lvl limit rest events
           | Inr False \<Rightarrow>
               (case filter_rejects lvl ''level'' event of
                  Inl e \<Rightarrow> Inl e
                | Inr True \<Rightarrow> read_loop loads strip etype lvl limit rest events
                | Inr False \<Rightarrow>
                    if limit_reached limit (events @ [event]) then Inr (events @ [event])
                    else read_loop loads strip etype lvl limit rest (events @ [event]))))"

definition master_log_file :: string where
  "master_log_file = ''session_timeseries.jsonl''"

definition get_agent_log_file :: "string \<Rightarrow> string" where
  "get_agent_log_file aid = ''agent_'' @ aid @ ''.jsonl''"

definition read_logs ::
  "bool \<Rightarrow> (string \<Rightarrow> py_error + json) \<Rightarrow> (string \<Rightarrow> string) \<Rightarrow> (string \<Rightarrow> log_file)
     \<Rightarrow> string option \<Rightarrow> string option \<Rightarrow> string option \<Rightarrow> int option
     \<Rightarrow> (py_error + json list) option" where
  "read_logs joins loads strip fs aid etype lvl limit =
     (if \<not> joins then None
      else
        (let log_file = (case aid of
                           None \<Rightarrow> master_log_file
                         | Some a \<Rightarrow> if a = [] then master_log_file else get_agent_log_file a)
         in case fs log_file of
              NoFile \<Rightarrow> Some (Inr [])
            | OpenRaises e \<Rightarrow> Some (Inl e)
            | Yields reads \<Rightarrow> Some (read_loop loads strip etype lvl limit reads [])))"

text \<open>
  What the claims say about \<open>read_logs\<close>, in their words: the events of a file are the
  lines that parse, in file order; an event matches a filter that is supplied (not
  \<open>None\<close>, not empty) when its field is that string; a limit applies when it is not 0.
  A line is harmless when parsing it raises nothing but \<open>JSONDecodeError\<close> and, if it
  parses and a filter is supplied, it is an object.
\<close>

definition file_events ::
  "(string \<Rightarrow> py_error + json) \<Rightarrow> (string \<Rightarrow> string) \<Rightarrow> string list \<Rightarrow> json list" where
  "file_events loads strip lines =
     List.map_filter (\<lambda>line. case loads (strip line) of Inl e \<Rightarrow> None | Inr j \<Rightarrow> Some j) lines"

definition field_matches :: "string option \<Rightarrow> string \<Rightarrow> json \<Rightarrow> bool" where
  "field_matches f k event =
     (case f of
        None \<Rightarrow> True
      | Some v \<Rightarrow> v = [] \<or> (case event of JObj d \<Rightarrow> map_of d k = Some (JStr v) | _ \<Rightarrow> False))"

definition event_matches :: "string option \<Rightarrow> string option \<Rightarrow> json \<Rightarrow> bool" where
  "event_matches etype lvl event \<longleftrightarrow>
     field_matches etype ''event_type'' event \<and> field_matches lvl ''level'' event"

definition truncate_to :: "int option \<Rightarrow> 'a list \<Rightarrow> 'a list" where
  "truncate_to limit xs =
     (case limit of
        None \<Rightarrow> xs
      | Some n \<Rightarrow> if n = 0 then xs else if 0 < n then take (nat n) xs else take 1 xs)"

definition is_object :: "json \<Rightarrow> bool" where
  "is_object j = (case j of JObj d \<Rightarrow> True | _ \<Rightarrow> False)"

definition filter_active :: "string option \<Rightarrow> bool" where
  "filter_active f = (case f of None \<Rightarrow> False | Some v \<Rightarrow> v \<noteq> [])"

definition harmless_line ::
  "(string \<Rightarrow> py_error + json) \<Rightarrow> (string \<Rightarrow> string) \<Rightarrow> string option \<Rightarrow> string option
     \<Rightarrow> string \<Rightarrow> bool" where
  "harmless_line loads strip etype lvl line =
     (case loads (strip line) of
        Inl e \<Rightarrow> e = JSONDecodeError
      | Inr j \<Rightarrow> is_object j \<or> (\<not> filter_active etype \<and> \<not> filter_active lvl))"

text \<open>The number of events after which the loop of \<open>read_logs\<close> stops, if any.\<close>

definition bound_of :: "int option \<Rightarrow> nat option" where
  "bound_of limit =
     (case limit of None \<Rightarrow> None
      | Some n \<Rightarrow> if n = 0 then None else if 0 < n then Some (nat n) else Some 1)"

subsection \<open>\<open>shared/enhanced_memory.py\<close>: class \<open>EnhancedMemoryManager\<close>\<close>

text \<open>
  A stored value is \<open>'v option\<close>, \<open>None\<close> being Python's \<open>None\<close> (which \<open>retrieve\<close>
  cannot tell from a miss).  The in-process tiers are maps; long-term memory is the index
  from \<open>agent:key\<close> to a file path together with the pickled entries on disk
  (\<open>longterm_files\<close>, \<open>None\<close> for a path that does not exist or does not unpickle).
\<close>

record 'v MemoryEntry =
  key :: string
  "value" :: "'v option"
  memory_type :: string
  agent_id :: string
  session_id :: "string option"
  created_at :: timestamp
  accessed_at :: timestamp
  access_count :: int
  tags :: "string list"

record 'p CampaignTemplate =
  template_id :: string
  product_name :: string
  category :: string
  quality_score :: pyfloat
  created_at :: timestamp
  session_id :: string
  target_audience :: string
  "keywords" :: "string list"
  listing_structure :: 'p
  social_strategy :: 'p
  success_metrics :: 'p
  tags :: "string list"

record ('v, 'p) EnhancedMemoryManager =
  mm_session_id :: string
  short_term_memory :: "string \<rightharpoonup> (string \<rightharpoonup> 'v MemoryEntry)"
  working_memory :: "string \<rightharpoonup> (string \<rightharpoonup> 'v MemoryEntry)"
  shared_memory :: "string \<rightharpoonup> 'v MemoryEntry"
  enable_caching :: bool
  mm_cache :: "'v option LRUCache"
  longterm_index :: "string \<rightharpoonup> string"
  longterm_files :: "string \<rightharpoonup> 'v MemoryEntry"
  templates_index :: "(string, 'p CampaignTemplate) ordered_dict"

text \<open>
  \<open>__init__\<close>: the in-process tiers start empty, the cache is fresh, and the two indexes
  are what the index files on disk hold.
\<close>

definition new_manager ::
  "string \<Rightarrow> bool \<Rightarrow> int \<Rightarrow> (string \<rightharpoonup> string) \<Rightarrow> (string \<rightharpoonup> 'v MemoryEntry)
     \<Rightarrow> (string, 'p CampaignTemplate) ordered_dict \<Rightarrow> ('v, 'p) EnhancedMemoryManager" where
  "new_manager sid caching cache_size lt_index lt_files templates =
     \<lparr>mm_session_id = sid, short_term_memory = Map.empty, working_memory = Map.empty,
      shared_memory = Map.empty, enable_caching = caching, mm_cache = new_cache cache_size,
      longterm_index = lt_index, longterm_files = lt_files, templates_index = templates\<rparr>"

definition cache_key :: "string \<Rightarrow> string \<Rightarrow> string \<Rightarrow> string" where
  "cache_key aid mtype k = aid @ '':'' @ mtype @ '':'' @ k"

definition cache_update ::
  "('v, 'p) EnhancedMemoryManager \<Rightarrow> string \<Rightarrow> 'v option \<Rightarrow> ('v, 'p) EnhancedMemoryManager" where
  "cache_update st ck v =
     (if enable_caching st then st\<lparr>mm_cache := lru_put (mm_cache st) ck v\<rparr> else st)"

text \<open>
  \<open>store\<close>.  \<open>write_ok\<close> says whether the file written by this call (the session file
  of a short-term entry, the pickle of a long-term entry) can be written; \<open>md5\<close> stands
  for the hex digest that names the long-term file.  An exception is caught and makes the
  call return \<open>False\<close> before the cache is updated.
\<close>

definition store ::
  "('v, 'p) EnhancedMemoryManager \<Rightarrow> timestamp \<Rightarrow> bool \<Rightarrow> (string \<Rightarrow> string) \<Rightarrow> string \<Rightarrow> string
     \<Rightarrow> 'v option \<Rightarrow> string \<Rightarrow> string list option \<Rightarrow> bool \<times> ('v, 'p) EnhancedMemoryManager" where
  "store st now write_ok md5 aid k v mtype tgs =
     (let entry = \<lparr>key = k, value = v, memory_type = mtype, agent_id = aid,
                    session_id = Some (mm_session_id st), created_at = now, accessed_at = now,
                    access_count = 0, tags = (case tgs of None \<Rightarrow> [] | Some ts \<Rightarrow> ts)\<rparr>;
          ck = cache_key aid mtype k
      in if mtype = ''short_term'' then
           (let agent_mem = (case short_term_memory st aid of None \<Rightarrow> Map.empty | Some m \<Rightarrow> m);
                st1 = st\<lparr>short_term_memory := (short_term_memory st)(aid \<mapsto> agent_mem(k \<mapsto> entry))\<rparr>
            in if write_ok then (True, cache_update st1 ck v) else (False, st1))
         else if mtype = ''long_term'' then
           (if write_ok
            then (True, cache_update
                    (st\<lparr>longterm_files := (longterm_files st)(md5 (aid @ '':'' @ k) \<mapsto> entry),
                        longterm_index := (longterm_index st)(aid @ '':'' @ k \<mapsto> md5 (aid @ '':'' @ k))\<rparr>)
                    ck v)
            else (False, st))
         else if mtype = ''working'' then
           (let agent_mem = (case working_memory st aid of None \<Rightarrow> Map.empty | Some m \<Rightarrow> m)
            in (True, cache_update
                  (st\<lparr>working_memory := (working_memory st)(aid \<mapsto> agent_mem(k \<mapsto> entry))\<rparr>) ck v))
         else if mtype = ''shared'' then
           (True, cache_update (st\<lparr>shared_memory := (shared_memory st)(k \<mapsto> entry)\<rparr>) ck v)
         else (True, cache_update st ck v))"

definition load_longterm_memory ::
  "('v, 'p) EnhancedMemoryManager \<Rightarrow> string \<Rightarrow> string \<Rightarrow> 'v MemoryEntry option" where
  "load_longterm_memory st aid k =
     (case longterm_index st (aid @ '':'' @ k) of
        None \<Rightarrow> None
      | Some memory_file \<Rightarrow> longterm_files st memory_file)"

text \<open>The entry that \<open>retrieve\<close> finds behind the cache, for each memory type.\<close>

definition backing_entry ::
  "('v, 'p) EnhancedMemoryManager \<Rightarrow> string \<Rightarrow> string \<Rightarrow> string \<Rightarrow> 'v MemoryEntry option" where
  "backing_entry st aid k mtype =
     (if mtype = ''short_term'' then
        (case short_term_memory st aid of None \<Rightarrow> None | Some m \<Rightarrow> m k)
      else if mtype = ''long_term'' then load_longterm_memory st aid k
      else if mtype = ''working'' then
        (case working_memory st aid of None \<Rightarrow> None | Some m \<Rightarrow> m k)
      else if mtype = ''shared'' then shared_memory st k
      else None)"

text \<open>
  The access metadata is assigned to the entry object.  For the in-process tiers that
  object is the one held by the dictionary, so the dictionary sees the change; a long-term
  entry is a fresh copy read from its file, and the change is not written back.
\<close>

definition touch_entry ::
  "('v, 'p) EnhancedMemoryManager \<Rightarrow> timestamp \<Rightarrow> string \<Rightarrow> string \<Rightarrow> string \<Rightarrow> 'v MemoryEntry
     \<Rightarrow> ('v, 'p) EnhancedMemoryManager" where
  "touch_entry st now aid k mtype entry =
     (let e = entry\<lparr>accessed_at := now, access_count := access_count entry + 1\<rparr>
      in if mtype = ''short_term'' then
           st\<lparr>short_term_memory := (short_term_memory st)
               (aid \<mapsto> (case short_term_memory st aid of None \<Rightarrow> Map.empty | Some m \<Rightarrow> m)(k \<mapsto> e))\<rparr>
         else if mtype = ''working'' then
           st\<lparr>working_memory := (working_memory st)
               (aid \<mapsto> (case working_memory st aid of None \<Rightarrow> Map.empty | Some m \<Rightarrow> m)(k \<mapsto> e))\<rparr>
         else if mtype = ''shared'' then
           st\<lparr>shared_memory := (shared_memory st)(k \<mapsto> e)\<rparr>
         else st)"

definition retrieve ::
  "('v, 'p) EnhancedMemoryManager \<Rightarrow> timestamp \<Rightarrow> string \<Rightarrow> string \<Rightarrow> string
     \<Rightarrow> 'v option \<times> ('v, 'p) EnhancedMemoryManager" where
  "retrieve st now aid k mtype =
     (let ck = cache_key aid mtype k;
          cached_value = (if enable_caching st then fst (lru_get (mm_cache st) ck) else None);
          st1 = (if enable_caching st then st\<lparr>mm_cache := snd (lru_get (mm_cache st) ck)\<rparr> else st)
      in case cached_value of
           Some (Some v) \<Rightarrow> (Some v, st1)
         | _ \<Rightarrow>
             (case backing_entry st1 aid k mtype of
                None \<Rightarrow> (None, st1)
              | Some entry \<Rightarrow>
                  (value entry, cache_update (touch_entry st1 now aid k mtype entry) ck (value entry))))"

text \<open>
  \<open>save_campaign_template\<close>.  The index is updated before the detail file of the
  template is written; \<open>write_ok\<close> says whether that file can be written, and the
  exception of a failed write leaves the function.
\<close>

definition make_template_id :: "(string \<Rightarrow> string) \<Rightarrow> string \<Rightarrow> string \<Rightarrow> string \<Rightarrow> string" where
  "make_template_id md5 pname cat sid = take 16 (md5 (pname @ '':'' @ cat @ '':'' @ sid))"

definition save_campaign_template ::
  "('v, 'p) EnhancedMemoryManager \<Rightarrow> timestamp \<Rightarrow> bool \<Rightarrow> (string \<Rightarrow> string) \<Rightarrow> string \<Rightarrow> string
     \<Rightarrow> pyfloat \<Rightarrow> string \<Rightarrow> string list \<Rightarrow> 'p \<Rightarrow> 'p \<Rightarrow> 'p \<Rightarrow> string list option
     \<Rightarrow> (py_error + string) \<times> ('v, 'p) EnhancedMemoryManager" where
  "save_campaign_template st now write_ok md5 pname cat score audience kws listing social
       metrics tgs =
     (let tid = make_template_id md5 pname cat (mm_session_id st);
          template = \<lparr>template_id = tid, product_name = pname, category = cat,
                       quality_score = score, created_at = now, session_id = mm_session_id st,
                       target_audience = audience, keywords = kws, listing_structure = listing,
                       social_strategy = social, success_metrics = metrics,
                       tags = (case tgs of None \<Rightarrow> [] | Some ts \<Rightarrow> ts)\<rparr>;
          st' = st\<lparr>templates_index := AList.update tid template (templates_index st)\<rparr>
      in (if write_ok then Inr tid else Inl OSError, st'))"

text \<open>
  The only caller, \<open>EnhancedCampaignWorkflow\<close> in
  \<open>workflows/enhanced_campaign_workflow.py\<close>, saves a template when the validation
  report's \<open>overall_score\<close> is at least 85.
\<close>

definition approval_threshold :: pyfloat where
  "approval_threshold = 85"

definition workflow_save_template ::
  "('v, 'p) EnhancedMemoryManager \<Rightarrow> timestamp \<Rightarrow> bool \<Rightarrow> (string \<Rightarrow> string) \<Rightarrow> string \<Rightarrow> string
     \<Rightarrow> pyfloat \<Rightarrow> string \<Rightarrow> string list \<Rightarrow> 'p \<Rightarrow> 'p \<Rightarrow> 'p \<Rightarrow> string list option
     \<Rightarrow> ('v, 'p) EnhancedMemoryManager" where
  "workflow_save_template st now write_ok md5 pname cat overall_score audience kws listing social
       metrics tgs =
     (if approval_threshold \<le> overall_score
      then snd (save_campaign_template st now write_ok md5 pname cat overall_score audience kws
                  listing social metrics tgs)
      else st)"

text \<open>
  A run of the workflow's save step over a list of finished campaigns, and the invariant
  that every indexed template has reached the approval threshold.
\<close>

record 'p campaign_result =
  r_now :: timestamp
  r_write_ok :: bool
  r_product_name :: string
  r_category :: string
  r_overall_score :: pyfloat
  r_target_audience :: string
  r_keywords :: "string list"
  r_listing :: 'p
  r_social :: 'p
  r_metrics :: 'p
  r_tags :: "string list option"

fun workflow_saves ::
  "('v, 'p) EnhancedMemoryManager \<Rightarrow> (string \<Rightarrow> string) \<Rightarrow> 'p campaign_result list
     \<Rightarrow> ('v, 'p) EnhancedMemoryManager" where
  "workflow_saves st md5 [] = st"
| "workflow_saves st md5 (r # rs) =
     workflow_saves
       (workflow_save_template st (r_now r) (r_write_ok r) md5 (r_product_name r) (r_category r)
          (r_overall_score r) (r_target_audience r) (r_keywords r) (r_listing r) (r_social r)
          (r_metrics r) (r_tags r))
       md5 rs"

definition all_approved :: "('v, 'p) EnhancedMemoryManager \<Rightarrow> bool" where
  "all_approved st \<longleftrightarrow>
     list_all (\<lambda>(tid, t). approval_threshold \<le> quality_score t) (templates_index st)"

text \<open>
  \<open>find_similar_campaigns\<close>.  \<open>str.lower\<close> and \<open>str.split\<close> are the parameters
  \<open>lower\<close> and \<open>split\<close>.  The similarity is a float: it starts as \<open>0.0\<close>, and each of
  the three terms is added to it with \<open>+=\<close>.  The two quotients divide by a maximum
  that is at least the overlap, which has just been tested to be positive.
\<close>






text \<open>
  The similarity in the words of the specification: 0.4 for an equal category (ignoring
  case), 0.4 times the share of common keywords, 0.2 times the share of common audience
  words.  A missing argument counts as empty, an empty text has no words, and a quotient
  with divisor 0 is 0.  \<open>claimed_similarity\<close> is the formula of the claim as it stands,
  in exact arithmetic; \<open>similarity_spec\<close> is the amended one: the category counts for a
  non-empty query category only, the keyword share is taken of the longer keyword list,
  and every literal, quotient, product and sum is a double.
\<close>

definition word_set :: "(string \<Rightarrow> string) \<Rightarrow> (string \<Rightarrow> string list) \<Rightarrow> string \<Rightarrow> string set" where
  "word_set lower split s = (if s = [] then {} else set (split (lower s)))"


definition float_ratio :: "nat \<Rightarrow> nat \<Rightarrow> pyfloat" where
  "float_ratio a b = round_double (of_nat a / of_nat b)"

definition similarity_spec ::
  "(string \<Rightarrow> string) \<Rightarrow> (string \<Rightarrow> string list) \<Rightarrow> string option \<Rightarrow> string list option
     \<Rightarrow> string option \<Rightarrow> 'p CampaignTemplate \<Rightarrow> pyfloat" where
  "similarity_spec lower split cat kws audience template =
     (let ks = (case kws of None \<Rightarrow> [] | Some ks \<Rightarrow> ks);
          ta = (case audience of None \<Rightarrow> [] | Some ta \<Rightarrow> ta)
      in float_add
           (float_add
              (if (case cat of None \<Rightarrow> False
                   | Some c \<Rightarrow> c \<noteq> [] \<and> lower (category template) = lower c)
               then float_of_decimal (4 / 10) else 0)
              (float_mul (float_of_decimal (4 / 10))
                 (float_ratio (card (set ks \<inter> set (keywords template)))
                    (max (length ks) (length (keywords template))))))
           (float_mul (float_of_decimal (2 / 10))
              (float_ratio (card (word_set lower split ta
                                   \<inter> word_set lower split (target_audience template)))
                 (max (card (word_set lower split ta))
                      (card (word_set lower split (target_audience template)))))))"

subsection \<open>\<open>shared/state_tracker.py\<close>: class \<open>StateTracker\<close>\<close>

datatype TaskStatus = PENDING | RUNNING | COMPLETED | FAILED | SKIPPED

record 'r task =
  task_id :: string
  task_name :: string
  status :: TaskStatus
  start_time :: "timestamp option"
  end_time :: "timestamp option"
  result :: "'r option"
  error :: "string option"
  retry_count :: int

record 'r StateTracker =
  tasks :: "(string, 'r task) ordered_dict"
  dependencies :: "(string, string list) ordered_dict"
  execution_order :: "string list"

definition new_tracker :: "'r StateTracker" where
  "new_tracker = \<lparr>tasks = [], dependencies = [], execution_order = []\<rparr>"

definition register_task ::
  "'r StateTracker \<Rightarrow> string \<Rightarrow> string \<Rightarrow> string list option \<Rightarrow> 'r StateTracker" where
  "register_task st tid nm deps =
     st\<lparr>tasks := AList.update tid
            \<lparr>task_id = tid, task_name = nm, status = PENDING, start_time = None,
             end_time = None, result = None, error = None, retry_count = 0\<rparr> (tasks st),
        dependencies := AList.update tid
            (case deps of None \<Rightarrow> [] | Some ds \<Rightarrow> if ds \<noteq> [] then ds else [])
            (dependencies st)\<rparr>"

definition start_task :: "'r StateTracker \<Rightarrow> timestamp \<Rightarrow> string \<Rightarrow> 'r StateTracker" where
  "start_task st now tid =
     (case map_of (tasks st) tid of
        None \<Rightarrow> st
      | Some t \<Rightarrow>
          st\<lparr>tasks := AList.update tid (t\<lparr>status := RUNNING, start_time := Some now\<rparr>) (tasks st),
             execution_order := execution_order st @ [tid]\<rparr>)"

definition complete_task ::
  "'r StateTracker \<Rightarrow> timestamp \<Rightarrow> string \<Rightarrow> 'r \<Rightarrow> 'r StateTracker" where
  "complete_task st now tid res =
     (case map_of (tasks st) tid of
        None \<Rightarrow> st
      | Some t \<Rightarrow>
          st\<lparr>tasks := AList.update tid
                 (t\<lparr>status := COMPLETED, end_time := Some now, result := Some res\<rparr>) (tasks st)\<rparr>)"

definition fail_task ::
  "'r StateTracker \<Rightarrow> timestamp \<Rightarrow> string \<Rightarrow> string \<Rightarrow> 'r StateTracker" where
  "fail_task st now tid err =
     (case map_of (tasks st) tid of
        None \<Rightarrow> st
      | Some t \<Rightarrow>
          st\<lparr>tasks := AList.update tid
                 (t\<lparr>status := FAILED, end_time := Some now, error := Some err\<rparr>) (tasks st)\<rparr>)"

definition retry_task :: "'r StateTracker \<Rightarrow> string \<Rightarrow> 'r StateTracker" where
  "retry_task st tid =
     (case map_of (tasks st) tid of
        None \<Rightarrow> st
      | Some t \<Rightarrow>
          st\<lparr>tasks := AList.update tid
                 (t\<lparr>retry_count := retry_count t + 1, status := PENDING\<rparr>) (tasks st)\<rparr>)"

text \<open>The loop of \<open>can_execute_task\<close> over the dependency list, leaving at the first failure.\<close>

fun deps_completed :: "(string, 'r task) ordered_dict \<Rightarrow> string list \<Rightarrow> bool" where
  "deps_completed ts [] = True"
| "deps_completed ts (dep_id # rest) =
     (case map_of ts dep_id of
        None \<Rightarrow> False
      | Some t \<Rightarrow> if status t \<noteq> COMPLETED then False else deps_completed ts rest)"

definition can_execute_task :: "'r StateTracker \<Rightarrow> string \<Rightarrow> bool" where
  "can_execute_task st tid =
     (if map_of (tasks st) tid = None then False
      else deps_completed (tasks st)
             (case map_of (dependencies st) tid of None \<Rightarrow> [] | Some ds \<Rightarrow> ds))"

definition get_ready_tasks :: "'r StateTracker \<Rightarrow> string list" where
  "get_ready_tasks st =
     map fst (filter (\<lambda>(tid, t). status t = PENDING \<and> can_execute_task st tid) (tasks st))"

definition get_task_status :: "'r StateTracker \<Rightarrow> string \<Rightarrow> TaskStatus option" where
  "get_task_status st tid = map_option status (map_of (tasks st) tid)"

datatype 'r tracker_op =
    Register string string "string list option"
  | Start timestamp string
  | Complete timestamp string 'r
  | Fail timestamp string string
  | Retry string

fun tracker_step :: "'r StateTracker \<Rightarrow> 'r tracker_op \<Rightarrow> 'r StateTracker" where
  "tracker_step st (Register tid nm deps) = register_task st tid nm deps"
| "tracker_step st (Start now tid) = start_task st now tid"
| "tracker_step st (Complete now tid res) = complete_task st now tid res"
| "tracker_step st (Fail now tid err) = fail_task st now tid err"
| "tracker_step st (Retry tid) = retry_task st tid"

text \<open>
  \<open>became_running st st' tid\<close>: the status of \<open>tid\<close> is \<open>RUNNING\<close> in \<open>st'\<close> and was not
  in \<open>st\<close>.  \<open>gate_respected st ops\<close>: along the run of \<open>ops\<close> from \<open>st\<close>, every task
  that becomes running could execute in the state in which the call was made.
  \<open>starts_ready st ops\<close>: the caller issues \<open>start_task\<close> only for tasks that
  \<open>get_ready_tasks\<close> returns at that moment.
\<close>

definition became_running :: "'r StateTracker \<Rightarrow> 'r StateTracker \<Rightarrow> string \<Rightarrow> bool" where
  "became_running st st' tid \<longleftrightarrow>
     get_task_status st' tid = Some RUNNING \<and> get_task_status st tid \<noteq> Some RUNNING"

fun gate_respected :: "'r StateTracker \<Rightarrow> 'r tracker_op list \<Rightarrow> bool" where
  "gate_respected st [] = True"
| "gate_respected st (op # ops) =
     (list_all (\<lambda>tid. became_running st (tracker_step st op) tid \<longrightarrow> can_execute_task st tid)
        (keys (tasks (tracker_step st op)))
      \<and> gate_respected (tracker_step st op) ops)"

fun starts_ready :: "'r StateTracker \<Rightarrow> 'r tracker_op list \<Rightarrow> bool" where
  "starts_ready st [] = True"
| "starts_ready st (op # ops) =
     ((case op of Start now tid \<Rightarrow> tid \<in> set (get_ready_tasks st) | _ \<Rightarrow> True)
      \<and> starts_ready (tracker_step st op) ops)"

section \<open>Verified properties\<close>

subsection \<open>The LRU cache\<close>

lemma map_of_in_keys: "k \<in> set (keys d) \<Longrightarrow> \<exists>v. map_of d k = Some v"
  by (induction d) (auto simp: keys_def)

lemma keys_filter_neq: "keys (filter (\<lambda>p. fst p \<noteq> k) d) = filter (\<lambda>x. x \<noteq> k) (keys d)"
  by (induction d) (auto simp: keys_def)

lemma keys_move_to_end:
  "k \<in> set (keys d) \<Longrightarrow> keys (move_to_end k d) = filter (\<lambda>x. x \<noteq> k) (keys d) @ [k]"
proof -
  assume a: "k \<in> set (keys d)"
  then obtain v where v: "map_of d k = Some v" using map_of_in_keys by fastforce
  have "keys (filter (\<lambda>p. fst p \<noteq> k) d @ [(k, v)]) = filter (\<lambda>x. x \<noteq> k) (keys d) @ [k]"
    using keys_filter_neq [of k d] by (simp add: keys_def)
  then show ?thesis using v by (simp add: move_to_end_def)
qed

lemma length_filter_neq_distinct:
  "distinct xs \<Longrightarrow> k \<in> set xs \<Longrightarrow> Suc (length (filter (\<lambda>x. x \<noteq> k) xs)) = length xs"
proof (induction xs)
  case Nil then show ?case by simp
next
  case (Cons a xs)
  show ?case
  proof (cases "a = k")
    case True
    then have "k \<notin> set xs" using Cons.prems by simp
    then have "filter (\<lambda>x. x \<noteq> k) xs = xs" by (auto simp: filter_id_conv)
    then show ?thesis using True by simp
  next
    case False
    then show ?thesis using Cons by simp
  qed
qed

lemma length_keys: "length (keys d) = length d"
  by (simp add: keys_def)

lemma keys_update: "keys (AList.update k v d) = (if k \<in> set (keys d) then keys d else keys d @ [k])"
  by (simp add: keys_def update_keys)

lemma keys_tl: "keys (tl d) = tl (keys d)"
  by (simp add: keys_def map_tl)

lemma keys_lru_put:
  "keys (cache (lru_put c k v)) =
    (let ks = filter (\<lambda>x. x \<noteq> k) (keys (cache c)) @ [k]
     in if int (length ks) > capacity c then tl ks else ks)"
proof (cases "k \<in> set (keys (cache c))")
  case True
  let ?d2 = "AList.update k v (move_to_end k (cache c))"
  have k2: "keys ?d2 = filter (\<lambda>x. x \<noteq> k) (keys (cache c)) @ [k]"
    using True by (simp add: keys_update keys_move_to_end)
  then have l2: "length ?d2 = length (filter (\<lambda>x. x \<noteq> k) (keys (cache c)) @ [k])"
    using length_keys [of ?d2] by simp
  show ?thesis using True k2 l2
    by (simp add: lru_put_def Let_def popitem_first_def keys_tl del: length_append)
next
  case False
  let ?d2 = "AList.update k v (cache c)"
  have f: "filter (\<lambda>x. x \<noteq> k) (keys (cache c)) = keys (cache c)"
    using False by (auto simp: filter_id_conv)
  have k2: "keys ?d2 = filter (\<lambda>x. x \<noteq> k) (keys (cache c)) @ [k]"
    using False f by (simp add: keys_update)
  then have l2: "length ?d2 = length (filter (\<lambda>x. x \<noteq> k) (keys (cache c)) @ [k])"
    using length_keys [of ?d2] by simp
  show ?thesis using False k2 l2
    by (simp add: lru_put_def Let_def popitem_first_def keys_tl del: length_append)
qed

lemma capacity_lru_put: "capacity (lru_put c k v) = capacity c"
  by (simp add: lru_put_def Let_def)

lemma keys_lru_get:
  "keys (cache (snd (lru_get c k))) =
     (if k \<in> set (keys (cache c)) then filter (\<lambda>x. x \<noteq> k) (keys (cache c)) @ [k] else keys (cache c))"
  by (simp add: lru_get_def Let_def keys_move_to_end)

lemma capacity_lru_get: "capacity (snd (lru_get c k)) = capacity c"
  by (simp add: lru_get_def Let_def)

lemma map_of_filter_neq: "map_of (filter (\<lambda>p. fst p \<noteq> k) d) k = None"
  by (induction d) auto

lemma map_of_move_to_end:
  "map_of (move_to_end k d) k = map_of d k"
  by (cases "map_of d k") (simp_all add: move_to_end_def map_add_def map_of_filter_neq)

lemma fst_lru_get: "fst (lru_get c k) = map_of (cache c) k"
proof (cases "k \<in> set (keys (cache c))")
  case True then show ?thesis by (simp add: lru_get_def Let_def map_of_move_to_end)
next
  case False
  then have "map_of (cache c) k = None" by (simp add: keys_def map_of_eq_None_iff)
  then show ?thesis using False by (simp add: lru_get_def)
qed

lemma cache_ok_put:
  assumes "cache_ok c" and "0 \<le> capacity c"
  shows "cache_ok (lru_put c k v)"
proof -
  let ?ks = "filter (\<lambda>x. x \<noteq> k) (keys (cache c)) @ [k]"
  have d: "distinct ?ks" using assms(1) by (simp add: cache_ok_def)
  have l: "length (filter (\<lambda>x. x \<noteq> k) (keys (cache c))) \<le> length (cache c)"
    using length_filter_le [of "\<lambda>x. x \<noteq> k" "keys (cache c)"] by (simp add: length_keys)
  have len: "int (length (cache (lru_put c k v))) \<le> capacity c"
  proof -
    have "length (cache (lru_put c k v)) = length (keys (cache (lru_put c k v)))"
      by (simp add: length_keys)
    also have "\<dots> = (if int (length ?ks) > capacity c then length (tl ?ks) else length ?ks)"
      by (simp add: keys_lru_put Let_def del: length_append length_tl)
    finally show ?thesis using l assms by (auto simp: cache_ok_def)
  qed
  have "distinct (keys (cache (lru_put c k v)))"
    using d by (simp add: keys_lru_put Let_def distinct_tl del: filter_append)
  then show ?thesis using len by (simp add: cache_ok_def capacity_lru_put)
qed

lemma cache_ok_get:
  assumes "cache_ok c"
  shows "cache_ok (snd (lru_get c k))"
proof (cases "k \<in> set (keys (cache c))")
  case False then show ?thesis using assms by (simp add: lru_get_def)
next
  case True
  have "length (keys (cache (snd (lru_get c k)))) = length (keys (cache c))"
    using True assms length_filter_neq_distinct [of "keys (cache c)" k]
    by (simp add: keys_lru_get cache_ok_def)
  then show ?thesis using assms True
    by (simp add: cache_ok_def capacity_lru_get length_keys) (simp add: keys_lru_get)
qed

lemma cache_ok_step: "cache_ok c \<Longrightarrow> 0 \<le> capacity c \<Longrightarrow> cache_ok (cache_step c op)"
  by (cases op) (simp_all add: cache_ok_put cache_ok_get)

lemma capacity_step: "capacity (cache_step c op) = capacity c"
  by (cases op) (simp_all add: capacity_lru_put capacity_lru_get)

lemma cache_ok_run:
  "cache_ok c \<Longrightarrow> 0 \<le> capacity c \<Longrightarrow> cache_ok (cache_run c ops) \<and> capacity (cache_run c ops) = capacity c"
  unfolding cache_run_def
  by (induction ops arbitrary: c) (simp_all add: cache_ok_step capacity_step)

lemma put_all_snoc: "put_all c (kvs @ [(k, v)]) = lru_put (put_all c kvs) k v"
  by (simp add: put_all_def)

lemma capacity_put_all: "capacity (put_all c kvs) = capacity c"
  by (induction kvs rule: rev_induct) (simp_all add: put_all_def capacity_lru_put split: prod.splits)

lemma tl_drop_snoc:
  "n \<le> length xs \<Longrightarrow> tl (drop n xs @ [k]) = drop (Suc n) (xs @ [k])"
proof (cases "n = length xs")
  case True
  then show ?thesis by simp
next
  case False
  assume "n \<le> length xs"
  then have "drop n xs \<noteq> []" using False by simp
  then have "tl (drop n xs @ [k]) = tl (drop n xs) @ [k]" by simp
  also have "\<dots> = drop (Suc n) xs @ [k]" by (simp add: tl_drop drop_Suc)
  finally show ?thesis using False \<open>n \<le> length xs\<close> by simp
qed

lemma keys_put_all_fresh:
  assumes "0 \<le> c" and "distinct (map fst kvs)"
  shows "keys (cache (put_all (new_cache c) kvs)) = drop (length kvs - nat c) (map fst kvs)"
  using assms(2)
proof (induction kvs rule: rev_induct)
  case Nil
  then show ?case by (simp add: put_all_def new_cache_def keys_def)
next
  case (snoc kv kvs)
  obtain k v where kv: "kv = (k, v)" by (cases kv)
  let ?xs = "map fst kvs"
  let ?n = "length kvs"
  have IH: "keys (cache (put_all (new_cache c) kvs)) = drop (?n - nat c) ?xs"
    using snoc by simp
  have fresh: "k \<notin> set ?xs" using snoc.prems kv by auto
  then have "k \<notin> set (drop (?n - nat c) ?xs)" by (meson in_set_dropD)
  then have filt: "filter (\<lambda>x. x \<noteq> k) (drop (?n - nat c) ?xs) = drop (?n - nat c) ?xs"
    by (auto simp: filter_id_conv)
  have cap: "capacity (put_all (new_cache c) kvs) = c"
    by (simp add: capacity_put_all new_cache_def)
  have step: "keys (cache (put_all (new_cache c) (kvs @ [kv]))) =
      (let ks = drop (?n - nat c) ?xs @ [k] in if int (length ks) > c then tl ks else ks)"
    by (simp only: kv put_all_snoc keys_lru_put IH filt cap)
  show ?case
  proof (cases "nat c \<le> ?n")
    case True
    then have "int (length (drop (?n - nat c) ?xs @ [k])) > c" using assms(1) by auto
    then have "keys (cache (put_all (new_cache c) (kvs @ [kv]))) = tl (drop (?n - nat c) ?xs @ [k])"
      using step by (simp add: Let_def)
    also have "\<dots> = drop (Suc (?n - nat c)) (?xs @ [k])"
      by (rule tl_drop_snoc) simp
    also have "\<dots> = drop (length (kvs @ [kv]) - nat c) (map fst (kvs @ [kv]))"
      using True kv by (simp add: Suc_diff_le)
    finally show ?thesis .
  next
    case False
    then have z: "?n - nat c = 0" and z': "Suc ?n - nat c = 0" by simp_all
    have "\<not> int (length (?xs @ [k])) > c" using False assms(1) by auto
    then have "keys (cache (put_all (new_cache c) (kvs @ [kv]))) = ?xs @ [k]"
      using step unfolding z Let_def drop_0 by (simp only: if_False)
    then show ?thesis using z' kv by simp
  qed
qed

lemma put_all_capacity_plus_one:
  assumes "0 \<le> c" and "distinct (map fst kvs)" and "length kvs = nat c + 1"
  shows "keys (cache (put_all (new_cache c) kvs)) = tl (map fst kvs)"
  using keys_put_all_fresh [OF assms(1,2)] assms(3) by (simp add: drop_Suc)

lemma promoted_key_last:
  assumes "k \<in> set (keys (cache st))"
  shows "last (keys (cache (snd (lru_get st k)))) = k"
  using assms by (simp add: keys_lru_get)

lemma evict_full_new_key:
  assumes "1 \<le> capacity st" and "int (length (cache st)) = capacity st" and "k' \<notin> set (keys (cache st))"
  shows "keys (cache (lru_put st k' v)) = tl (keys (cache st)) @ [k']"
proof -
  have f: "filter (\<lambda>x. x \<noteq> k') (keys (cache st)) = keys (cache st)"
    using assms(3) by (auto simp: filter_id_conv)
  show ?thesis
  proof (cases "keys (cache st)")
    case Nil
    then have "capacity st = 0" using assms(2) by (simp add: keys_def)
    then show ?thesis using assms(1) by simp
  next
    case (Cons a as)
    then show ?thesis using f assms(2) length_keys [of "cache st"]
      by (simp add: keys_lru_put Let_def)
  qed
qed

lemma promoted_key_survives:
  assumes "cache_ok st" and "k \<in> set (keys (cache st))" and "k' \<notin> set (keys (cache st))"
    and "2 \<le> length (cache st)"
  shows "k \<in> set (keys (cache (lru_put (snd (lru_get st k)) k' v)))"
proof -
  let ?ks = "keys (cache st)"
  let ?others = "filter (\<lambda>x. x \<noteq> k) ?ks"
  have d: "distinct ?ks" using assms(1) by (simp add: cache_ok_def)
  have "Suc (length ?others) = length ?ks" using d assms(2) by (rule length_filter_neq_distinct)
  then have "?others \<noteq> []" using assms(4) by (auto simp: length_keys)
  then obtain a as where oth: "?others = a # as" by (cases ?others) auto
  have kk': "k \<noteq> k'" using assms(2,3) by auto
  have "\<forall>x\<in>set (?others @ [k]). x \<noteq> k'" using assms(3) kk' by auto
  then have f2: "filter (\<lambda>x. x \<noteq> k') (?others @ [k]) = ?others @ [k]"
    by (simp only: filter_id_conv)
  have "keys (cache (lru_put (snd (lru_get st k)) k' v)) =
     (let ks = (?others @ [k]) @ [k'] in if int (length ks) > capacity st then tl ks else ks)"
    using assms(2) f2 by (simp only: keys_lru_put keys_lru_get capacity_lru_get if_True)
  then show ?thesis using oth by (simp add: Let_def)
qed

text \<open>
  Claim C9 (amended).  For a cache of capacity \<open>c \<ge> 1\<close>: after any sequence of
  \<open>put\<close>/\<open>get\<close> calls the keys are distinct and there are at most \<open>c\<close> of them;
  putting \<open>c + 1\<close> distinct keys into the fresh cache leaves exactly the keys after the
  first one (the least recently used key is evicted and no other), and a \<open>put\<close> of a new
  key into a full cache drops exactly the oldest key; \<open>get\<close> on a present key returns
  its value and makes the key the most recent one, so that it survives the eviction caused
  by the next \<open>put\<close> of a new key whenever the cache holds at least one other key.
\<close>

theorem lru_cache_bounded_eviction:
  "1 \<le> c \<Longrightarrow>
     cache_ok (cache_run (new_cache c) (ops :: 'v cache_op list))
   \<and> int (length (cache (cache_run (new_cache c) ops))) \<le> c
   \<and> (distinct (map fst kvs) \<and> length kvs = nat c + 1 \<longrightarrow>
        keys (cache (put_all (new_cache c) (kvs :: (string \<times> 'v) list))) = tl (map fst kvs))
   \<and> (capacity (st :: 'v LRUCache) = c \<and> int (length (cache st)) = c \<and> k' \<notin> set (keys (cache st)) \<longrightarrow>
        keys (cache (lru_put st k' v)) = tl (keys (cache st)) @ [k'])
   \<and> (cache_ok st \<and> k \<in> set (keys (cache st)) \<longrightarrow>
        fst (lru_get st k) = map_of (cache st) k
      \<and> map_of (cache st) k \<noteq> None
      \<and> last (keys (cache (snd (lru_get st k)))) = k
      \<and> (2 \<le> length (cache st) \<and> k' \<notin> set (keys (cache st)) \<longrightarrow>
           k \<in> set (keys (cache (lru_put (snd (lru_get st k)) k' v)))))"
proof -
  assume c: "1 \<le> c"
  have ok0: "cache_ok (new_cache c)" using c by (simp add: cache_ok_def new_cache_def keys_def)
  have cap0: "0 \<le> capacity (new_cache c)" using c by (simp add: new_cache_def)
  have run: "cache_ok (cache_run (new_cache c) ops)"
    and cap: "capacity (cache_run (new_cache c) ops) = c"
    using cache_ok_run [OF ok0 cap0, of ops] by (simp_all add: new_cache_def)
  have len: "int (length (cache (cache_run (new_cache c) ops))) \<le> c"
    using run cap by (simp add: cache_ok_def)
  have fill: "distinct (map fst kvs) \<and> length kvs = nat c + 1 \<longrightarrow>
        keys (cache (put_all (new_cache c) kvs)) = tl (map fst kvs)"
    using c put_all_capacity_plus_one [of c kvs] by simp
  have evict: "capacity st = c \<and> int (length (cache st)) = c \<and> k' \<notin> set (keys (cache st)) \<longrightarrow>
        keys (cache (lru_put st k' v)) = tl (keys (cache st)) @ [k']"
    using c evict_full_new_key [of st k' v] by simp
  have promote: "cache_ok st \<and> k \<in> set (keys (cache st)) \<longrightarrow>
        fst (lru_get st k) = map_of (cache st) k
      \<and> map_of (cache st) k \<noteq> None
      \<and> last (keys (cache (snd (lru_get st k)))) = k
      \<and> (2 \<le> length (cache st) \<and> k' \<notin> set (keys (cache st)) \<longrightarrow>
           k \<in> set (keys (cache (lru_put (snd (lru_get st k)) k' v))))"
    using map_of_in_keys [of k "cache st"] promoted_key_last [of k st]
      promoted_key_survives [of st k k' v]
    by (auto simp: fst_lru_get)
  show ?thesis using run len fill evict promote by blast
qed

theorem lru_cache_bounded_eviction_witness:
  "(1::int) \<le> 2
   \<and> distinct (map fst [(''a'', 1::nat), (''b'', 2), (''c'', 3)])
   \<and> length [(''a'', 1::nat), (''b'', 2), (''c'', 3)] = nat 2 + 1
   \<and> cache_ok \<lparr>cache = [(''a'', 1::nat), (''b'', 2)], capacity = 2\<rparr>
   \<and> ''a'' \<in> set (keys [(''a'', 1::nat), (''b'', 2)])
   \<and> ''c'' \<notin> set (keys [(''a'', 1::nat), (''b'', 2)])
   \<and> keys (cache (put_all (new_cache 2) [(''a'', 1::nat), (''b'', 2), (''c'', 3)])) = [''b'', ''c'']
   \<and> keys (cache (lru_put \<lparr>cache = [(''a'', 1::nat), (''b'', 2)], capacity = 2\<rparr> ''c'' 3))
        = [''b'', ''c'']
   \<and> ''a'' \<in> set (keys (cache (lru_put
        (snd (lru_get \<lparr>cache = [(''a'', 1::nat), (''b'', 2)], capacity = 2\<rparr> ''a'')) ''c'' 3)))"
proof -
  have h: "(1::int) \<le> 2" by simp
  have hyps: "distinct (map fst [(''a'', 1::nat), (''b'', 2), (''c'', 3)])
     \<and> length [(''a'', 1::nat), (''b'', 2), (''c'', 3)] = nat 2 + 1
     \<and> cache_ok \<lparr>cache = [(''a'', 1::nat), (''b'', 2)], capacity = 2\<rparr>
     \<and> ''a'' \<in> set (keys [(''a'', 1::nat), (''b'', 2)])
     \<and> ''c'' \<notin> set (keys [(''a'', 1::nat), (''b'', 2)])"
    by (simp add: cache_ok_def keys_def)
  show ?thesis
    using h hyps
      lru_cache_bounded_eviction [OF h,
        of "[Put ''a'' 1, Put ''b'' 2, Get ''a'', Put ''c'' 3]"
        "[(''a'', 1::nat), (''b'', 2), (''c'', 3)]"
        "\<lparr>cache = [(''a'', 1::nat), (''b'', 2)], capacity = 2\<rparr>" "''c''" 3 "''a''"]
    by (simp add: keys_def)
qed

text \<open>
  Claim C9 as stated promises for every capacity \<open>c \<ge> 1\<close> that a key promoted by \<open>get\<close>
  is not the next eviction victim.  With capacity 1 the promoted key is the only key, and
  the next \<open>put\<close> of another key evicts it.
\<close>

theorem lru_capacity_one_counterexample:
  "lru_put (new_cache 1) ''a'' (1::nat) = \<lparr>cache = [(''a'', 1)], capacity = 1\<rparr>
   \<and> fst (lru_get \<lparr>cache = [(''a'', 1::nat)], capacity = 1\<rparr> ''a'') = Some 1
   \<and> ''a'' \<notin> set (keys (cache (lru_put
        (snd (lru_get \<lparr>cache = [(''a'', 1::nat)], capacity = 1\<rparr> ''a'')) ''b'' 2)))"
  by (simp add: lru_put_def lru_get_def new_cache_def move_to_end_def popitem_first_def
      keys_def Let_def)

subsection \<open>The task state machine\<close>

lemma status_update_other:
  "tid' \<noteq> tid \<Longrightarrow> map_of (AList.update tid t ts) tid' = map_of ts tid'"
  by (simp add: update_conv')

lemma register_not_running:
  "get_task_status (register_task st tid nm deps) t = Some RUNNING \<Longrightarrow> get_task_status st t = Some RUNNING"
  by (cases "t = tid") (simp_all add: get_task_status_def register_task_def update_conv')

lemma complete_not_running:
  "get_task_status (complete_task st now tid res) t = Some RUNNING \<Longrightarrow> get_task_status st t = Some RUNNING"
  by (cases "t = tid") (auto simp: get_task_status_def complete_task_def update_conv' split: option.splits)

lemma fail_not_running:
  "get_task_status (fail_task st now tid err) t = Some RUNNING \<Longrightarrow> get_task_status st t = Some RUNNING"
  by (cases "t = tid") (auto simp: get_task_status_def fail_task_def update_conv' split: option.splits)

lemma retry_not_running:
  "get_task_status (retry_task st tid) t = Some RUNNING \<Longrightarrow> get_task_status st t = Some RUNNING"
  by (cases "t = tid") (auto simp: get_task_status_def retry_task_def update_conv' split: option.splits)

lemma start_other_not_running:
  "t \<noteq> tid \<Longrightarrow> get_task_status (start_task st now tid) t = Some RUNNING \<Longrightarrow> get_task_status st t = Some RUNNING"
  by (auto simp: get_task_status_def start_task_def update_conv' split: option.splits)

lemma start_registered_running:
  "map_of (tasks st) tid \<noteq> None \<Longrightarrow> get_task_status (start_task st now tid) tid = Some RUNNING"
  by (auto simp: get_task_status_def start_task_def update_conv' split: option.splits)

lemma start_unregistered: "map_of (tasks st) tid = None \<Longrightarrow> start_task st now tid = st"
  by (simp add: start_task_def)

lemma became_running_only_by_start:
  assumes "became_running st (tracker_step st op) t"
  shows "\<exists>now. op = Start now t \<and> map_of (tasks st) t \<noteq> None"
proof (cases op)
  case (Register tid nm deps)
  then show ?thesis using assms register_not_running [of st tid nm deps t] by (auto simp: became_running_def)
next
  case (Start now tid)
  show ?thesis
  proof (cases "t = tid")
    case True
    have "map_of (tasks st) t \<noteq> None"
    proof
      assume "map_of (tasks st) t = None"
      then show False using assms Start True by (simp add: became_running_def start_unregistered)
    qed
    then show ?thesis using Start True by simp
  next
    case False
    then show ?thesis using assms Start start_other_not_running [of t tid st now]
      by (auto simp: became_running_def)
  qed
next
  case (Complete now tid res)
  then show ?thesis using assms complete_not_running [of st now tid res t] by (auto simp: became_running_def)
next
  case (Fail now tid err)
  then show ?thesis using assms fail_not_running [of st now tid err t] by (auto simp: became_running_def)
next
  case (Retry tid)
  then show ?thesis using assms retry_not_running [of st tid t] by (auto simp: became_running_def)
qed

lemma deps_completed_iff:
  "deps_completed ts ds \<longleftrightarrow> (\<forall>d\<in>set ds. \<exists>t. map_of ts d = Some t \<and> status t = COMPLETED)"
  by (induction ds) (auto split: option.splits)

lemma ready_task_can_execute:
  "tid \<in> set (get_ready_tasks st) \<Longrightarrow> can_execute_task st tid"
  by (auto simp: get_ready_tasks_def)

lemma ready_task_pending:
  assumes "distinct (keys (tasks st))" and "tid \<in> set (get_ready_tasks st)"
  shows "get_task_status st tid = Some PENDING"
proof -
  from assms(2) obtain t where "(tid, t) \<in> set (tasks st)" and "status t = PENDING"
    by (auto simp: get_ready_tasks_def)
  then show ?thesis using assms(1) by (simp add: get_task_status_def keys_def)
qed

lemma gated_run_respects:
  "starts_ready st ops \<Longrightarrow> gate_respected st ops"
proof (induction ops arbitrary: st)
  case Nil
  then show ?case by simp
next
  case (Cons op ops)
  have "became_running st (tracker_step st op) t \<longrightarrow> can_execute_task st t" for t
  proof
    assume b: "became_running st (tracker_step st op) t"
    then obtain now where "op = Start now t" using became_running_only_by_start by blast
    then have "t \<in> set (get_ready_tasks st)" using Cons.prems by simp
    then show "can_execute_task st t" by (rule ready_task_can_execute)
  qed
  then show ?case using Cons by (simp add: list_all_iff)
qed

text \<open>
  Claim C2 as stated: no task becomes \<open>running\<close> while \<open>can_execute_task\<close> is false for
  it.  \<open>start_task\<close> does not look at the dependencies: task \<open>B\<close> depends on \<open>A\<close>,
  \<open>A\<close> is still pending, and \<open>start_task\<close> makes \<open>B\<close> running all the same.
\<close>

theorem start_task_ignores_dependencies_counterexample:
  "\<not> can_execute_task
        (register_task (register_task (new_tracker :: string StateTracker) ''A'' ''research'' None)
           ''B'' ''write'' (Some [''A''])) ''B''
   \<and> get_task_status
        (start_task
           (register_task (register_task (new_tracker :: string StateTracker) ''A'' ''research'' None)
              ''B'' ''write'' (Some [''A''])) 0 ''B'') ''B'' = Some RUNNING
   \<and> \<not> can_execute_task
        (start_task
           (register_task (register_task (new_tracker :: string StateTracker) ''A'' ''research'' None)
              ''B'' ''write'' (Some [''A''])) 0 ''B'') ''B''"
  by (simp add: can_execute_task_def get_task_status_def start_task_def register_task_def
      new_tracker_def)

text \<open>
  Claim C2 (amended).  \<open>can_execute_task\<close> is true exactly for a registered task all of
  whose dependencies are registered and completed, so an unmet or unregistered dependency
  makes it false.  A task's status becomes \<open>running\<close> only through \<open>start_task\<close> on that
  registered task, and \<open>start_task\<close> sets it for every registered task without consulting
  \<open>can_execute_task\<close>.  Every task returned by \<open>get_ready_tasks\<close> can execute; hence in
  every sequence of operations in which the caller starts only tasks that
  \<open>get_ready_tasks\<close> returns at that moment, no task becomes running while
  \<open>can_execute_task\<close> is false for it.
\<close>

theorem running_only_through_gated_start:
  "(can_execute_task st tid \<longleftrightarrow>
      map_of (tasks st) tid \<noteq> None
      \<and> (\<forall>d \<in> set (case map_of (dependencies st) tid of None \<Rightarrow> [] | Some ds \<Rightarrow> ds).
            \<exists>t. map_of (tasks st) d = Some t \<and> status t = COMPLETED))
   \<and> (became_running st (tracker_step st op) tid \<longrightarrow>
        (\<exists>now. op = Start now tid \<and> map_of (tasks st) tid \<noteq> None))
   \<and> (map_of (tasks st) tid \<noteq> None \<longrightarrow>
        get_task_status (start_task st now tid) tid = Some RUNNING)
   \<and> (tid \<in> set (get_ready_tasks st) \<longrightarrow> can_execute_task st tid)
   \<and> (starts_ready st ops \<longrightarrow> gate_respected st ops)"
proof -
  have a: "can_execute_task st tid \<longleftrightarrow>
      map_of (tasks st) tid \<noteq> None
      \<and> (\<forall>d \<in> set (case map_of (dependencies st) tid of None \<Rightarrow> [] | Some ds \<Rightarrow> ds).
            \<exists>t. map_of (tasks st) d = Some t \<and> status t = COMPLETED)"
    by (simp add: can_execute_task_def deps_completed_iff)
  show ?thesis
    using a became_running_only_by_start [of st op tid] start_registered_running [of st tid now]
      ready_task_can_execute [of tid st] gated_run_respects [of st ops]
    by blast
qed

theorem running_only_through_gated_start_witness:
  "map_of (tasks (complete_task (register_task (register_task (new_tracker :: string StateTracker)
        ''A'' ''research'' None) ''B'' ''write'' (Some [''A''])) 3 ''A'' ''done'')) ''B'' \<noteq> None
   \<and> ''B'' \<in> set (get_ready_tasks (complete_task (register_task (register_task
        (new_tracker :: string StateTracker)
        ''A'' ''research'' None) ''B'' ''write'' (Some [''A''])) 3 ''A'' ''done''))
   \<and> starts_ready (complete_task (register_task (register_task (new_tracker :: string StateTracker)
        ''A'' ''research'' None) ''B'' ''write'' (Some [''A''])) 3 ''A'' ''done'') [Start 5 ''B'']
   \<and> became_running (complete_task (register_task (register_task (new_tracker :: string StateTracker)
        ''A'' ''research'' None) ''B'' ''write'' (Some [''A''])) 3 ''A'' ''done'')
       (tracker_step (complete_task (register_task (register_task (new_tracker :: string StateTracker)
        ''A'' ''research'' None) ''B'' ''write'' (Some [''A''])) 3 ''A'' ''done'') (Start 5 ''B''))
       ''B''
   \<and> can_execute_task (complete_task (register_task (register_task (new_tracker :: string StateTracker)
        ''A'' ''research'' None) ''B'' ''write'' (Some [''A''])) 3 ''A'' ''done'') ''B''
   \<and> gate_respected (complete_task (register_task (register_task (new_tracker :: string StateTracker)
        ''A'' ''research'' None) ''B'' ''write'' (Some [''A''])) 3 ''A'' ''done'') [Start 5 ''B'']"
proof -
  let ?st = "complete_task (register_task (register_task (new_tracker :: string StateTracker)
        ''A'' ''research'' None) ''B'' ''write'' (Some [''A''])) 3 ''A'' ''done''"
  have st: "?st = \<lparr>tasks =
       [(''A'', \<lparr>task_id = ''A'', task_name = ''research'', status = COMPLETED, start_time = None,
                end_time = Some 3, result = Some ''done'', error = None, retry_count = 0\<rparr>),
        (''B'', \<lparr>task_id = ''B'', task_name = ''write'', status = PENDING, start_time = None,
                end_time = None, result = None, error = None, retry_count = 0\<rparr>)],
       dependencies = [(''A'', []), (''B'', [''A''])], execution_order = []\<rparr>"
    by (simp add: complete_task_def register_task_def new_tracker_def)
  have ready: "''B'' \<in> set (get_ready_tasks ?st)"
    unfolding st by (simp add: get_ready_tasks_def can_execute_task_def)
  have reg: "map_of (tasks ?st) ''B'' \<noteq> None"
    unfolding st by simp
  have sr: "starts_ready ?st [Start 5 ''B'']"
    using ready by simp
  have br: "became_running ?st (tracker_step ?st (Start 5 ''B'')) ''B''"
    unfolding st by (simp add: became_running_def get_task_status_def start_task_def)
  note t = running_only_through_gated_start [of ?st "''B''" "Start 5 ''B''" 5 "[Start 5 ''B'']"]
  from t ready have ce: "can_execute_task ?st ''B''" by blast
  from t sr have gr: "gate_respected ?st [Start 5 ''B'']" by blast
  show ?thesis using reg ready sr br ce gr by blast
qed

subsection \<open>The session registry\<close>

lemma update_session_unknown:
  "map_of (sessions_index st) sid = None \<Longrightarrow> update_session st now sid s d a e q = (None, st)"
  by (simp add: update_session_def)

lemma update_session_known:
  assumes "map_of (sessions_index st) sid = Some m"
  shows "snd (update_session st now sid s d a e q) =
     st\<lparr>sessions_index := AList.update sid
        (m\<lparr>SessionMetadata.status := (case s of None \<Rightarrow> SessionMetadata.status m | Some x \<Rightarrow> if x = [] then SessionMetadata.status m else x),
           completed_at := (if s = Some ''completed'' \<or> s = Some ''failed'' then Some now
                            else completed_at m),
           duration_seconds := (case d of None \<Rightarrow> duration_seconds m | Some x \<Rightarrow> x),
           agent_count := (case a of None \<Rightarrow> agent_count m | Some x \<Rightarrow> x),
           error_count := (case e of None \<Rightarrow> error_count m | Some x \<Rightarrow> x),
           SessionMetadata.quality_score := (case q of None \<Rightarrow> SessionMetadata.quality_score m | Some x \<Rightarrow> Some x)\<rparr>)
        (sessions_index st)\<rparr>"
  using assms
  by (cases s; cases d; cases a; cases e; cases q) (auto simp: update_session_def Let_def)

lemma update_session_error:
  assumes "map_of (sessions_index st) sid = Some m"
  shows "fst (update_session st now sid s d a e q) = None \<longleftrightarrow> sid \<in> session_dirs st"
  using assms by (simp add: update_session_def Let_def)

lemma update_session_others:
  "sid' \<noteq> sid \<Longrightarrow>
     get_session_metadata (snd (update_session st now sid s d a e q)) sid' = get_session_metadata st sid'"
  by (cases "map_of (sessions_index st) sid")
     (simp_all add: update_session_def Let_def get_session_metadata_def update_conv')

lemma update_session_keys:
  "keys (sessions_index (snd (update_session st now sid s d a e q))) = keys (sessions_index st)"
proof (cases "map_of (sessions_index st) sid")
  case None
  then show ?thesis by (simp add: update_session_def)
next
  case (Some m)
  then have "sid \<in> set (keys (sessions_index st))"
    by (metis keys_def map_of_eq_None_iff option.distinct(1) set_map)
  then show ?thesis using Some by (simp add: update_session_def Let_def keys_update)
qed
















text \<open>
  Claim C6 as stated: exactly the supplied non-absent fields are updated.  The status is
  tested for truthiness (\<open>if status:\<close>), so a supplied empty status is not applied: the
  session stays \<open>running\<close>.
\<close>

theorem update_session_empty_status_counterexample:
  "map_option SessionMetadata.status
     (get_session_metadata
        (snd (update_session
           \<lparr>sessions_index =
              [(''s1'', \<lparr>SessionMetadata.session_id = ''s1'', SessionMetadata.created_at = 0, SessionMetadata.status = ''running'',
                         SessionMetadata.product_name = None, workflow_type = ''amazon_campaign'',
                         duration_seconds = 0, agent_count = 0, error_count = 0,
                         SessionMetadata.quality_score = None, completed_at = None, archived_at = None\<rparr>)],
             retention_days = 7, session_dirs = {''s1''}\<rparr>
           5 ''s1'' (Some '''') None None None None))
        ''s1'') = Some ''running''"
  by (simp add: update_session_def get_session_metadata_def)

text \<open>
  Claim C6 (amended).  For an unknown session id \<open>update_session\<close> returns without error
  and leaves the manager as it was.  For a known id the stored metadata becomes the old
  one with: \<open>status\<close> replaced when a non-empty status is supplied (an empty string counts
  as absent), \<open>completed_at\<close> stamped with the clock when the supplied status is
  \<open>completed\<close> or \<open>failed\<close>, and \<open>duration_seconds\<close>, \<open>agent_count\<close>, \<open>error_count\<close>,
  \<open>quality_score\<close> replaced when supplied; every other field, every other session and the
  order of the index are unchanged.  The call returns normally when the session directory
  still exists (the manifest is rewritten there).
\<close>

theorem update_session_partial_update:
  "(map_of (sessions_index st) sid = None \<longrightarrow>
      update_session st now sid s d a e q = (None, st))
   \<and> (map_of (sessions_index st) sid = Some m \<longrightarrow>
        snd (update_session st now sid s d a e q) =
          st\<lparr>sessions_index := AList.update sid
            (m\<lparr>SessionMetadata.status :=
                 (case s of None \<Rightarrow> SessionMetadata.status m
                  | Some x \<Rightarrow> if x = [] then SessionMetadata.status m else x),
               completed_at := (if s = Some ''completed'' \<or> s = Some ''failed'' then Some now
                                else completed_at m),
               duration_seconds := (case d of None \<Rightarrow> duration_seconds m | Some x \<Rightarrow> x),
               agent_count := (case a of None \<Rightarrow> agent_count m | Some x \<Rightarrow> x),
               error_count := (case e of None \<Rightarrow> error_count m | Some x \<Rightarrow> x),
               SessionMetadata.quality_score :=
                 (case q of None \<Rightarrow> SessionMetadata.quality_score m | Some x \<Rightarrow> Some x)\<rparr>)
            (sessions_index st)\<rparr>
        \<and> (fst (update_session st now sid s d a e q) = None \<longleftrightarrow> sid \<in> session_dirs st))
   \<and> (sid' \<noteq> sid \<longrightarrow>
        get_session_metadata (snd (update_session st now sid s d a e q)) sid'
          = get_session_metadata st sid')
   \<and> keys (sessions_index (snd (update_session st now sid s d a e q)))
        = keys (sessions_index st)"
  using update_session_unknown [of st sid now s d a e q]
    update_session_known [of st sid m now s d a e q]
    update_session_error [of st sid m now s d a e q]
    update_session_others [of sid' sid st now s d a e q]
    update_session_keys [of st now sid s d a e q]
  by blast

theorem update_session_partial_update_witness:
  "map_of [(''s1'', \<lparr>SessionMetadata.session_id = ''s1'', SessionMetadata.created_at = 0, SessionMetadata.status = ''running'',
                     SessionMetadata.product_name = None, workflow_type = ''amazon_campaign'',
                     duration_seconds = 0, agent_count = 0, error_count = 0,
                     SessionMetadata.quality_score = None, completed_at = None, archived_at = None\<rparr>)] ''s1''
     = Some \<lparr>SessionMetadata.session_id = ''s1'', SessionMetadata.created_at = 0, SessionMetadata.status = ''running'',
             SessionMetadata.product_name = None, workflow_type = ''amazon_campaign'',
             duration_seconds = 0, agent_count = 0, error_count = 0,
             SessionMetadata.quality_score = None, completed_at = None, archived_at = None\<rparr>
   \<and> ''s2'' \<noteq> ''s1''
   \<and> update_session
        \<lparr>sessions_index =
           [(''s1'', \<lparr>SessionMetadata.session_id = ''s1'', SessionMetadata.created_at = 0, SessionMetadata.status = ''running'',
                      SessionMetadata.product_name = None, workflow_type = ''amazon_campaign'',
                      duration_seconds = 0, agent_count = 0, error_count = 0,
                      SessionMetadata.quality_score = None, completed_at = None, archived_at = None\<rparr>)],
          retention_days = 7, session_dirs = {''s1''}\<rparr>
        5 ''s1'' (Some ''completed'') None (Some 6) None (Some 92)
     = (None,
        \<lparr>sessions_index =
           [(''s1'', \<lparr>SessionMetadata.session_id = ''s1'', SessionMetadata.created_at = 0, SessionMetadata.status = ''completed'',
                      SessionMetadata.product_name = None, workflow_type = ''amazon_campaign'',
                      duration_seconds = 0, agent_count = 6, error_count = 0,
                      SessionMetadata.quality_score = Some 92, completed_at = Some 5, archived_at = None\<rparr>)],
          retention_days = 7, session_dirs = {''s1''}\<rparr>)"
proof -
  let ?m = "\<lparr>SessionMetadata.session_id = ''s1'', SessionMetadata.created_at = 0, SessionMetadata.status = ''running'',
             SessionMetadata.product_name = None, workflow_type = ''amazon_campaign'',
             duration_seconds = 0, agent_count = 0, error_count = 0,
             SessionMetadata.quality_score = None, completed_at = None, archived_at = None\<rparr>"
  let ?st = "\<lparr>sessions_index = [(''s1'', ?m)], retention_days = 7, session_dirs = {''s1''}\<rparr>"
  have h: "map_of (sessions_index ?st) ''s1'' = Some ?m" by simp
  have h2: "''s2'' \<noteq> ''s1''" by simp
  note t = update_session_partial_update [of ?st "''s1''" 5 "Some ''completed''" None "Some 6" None
      "Some 92" ?m "''s2''"]
  from t h have s: "snd (update_session ?st 5 ''s1'' (Some ''completed'') None (Some 6) None (Some 92)) =
     ?st\<lparr>sessions_index := AList.update ''s1''
        (?m\<lparr>SessionMetadata.status := ''completed'', completed_at := Some 5, agent_count := 6,
             SessionMetadata.quality_score := Some 92\<rparr>) (sessions_index ?st)\<rparr>"
    and f: "fst (update_session ?st 5 ''s1'' (Some ''completed'') None (Some 6) None (Some 92)) = None"
    by simp_all
  have "update_session ?st 5 ''s1'' (Some ''completed'') None (Some 6) None (Some 92) =
      (None, ?st\<lparr>sessions_index := AList.update ''s1''
        (?m\<lparr>SessionMetadata.status := ''completed'', completed_at := Some 5, agent_count := 6,
             SessionMetadata.quality_score := Some 92\<rparr>) (sessions_index ?st)\<rparr>)"
    using s f by (metis prod.collapse)
  then show ?thesis using h h2 by simp
qed




subsection \<open>The event log\<close>

lemma log_returns_id:
  "fst (log lg now new_id etype lvl msg aid aname dat dur parent) = new_id"
  by (simp add: log_def Let_def put_nowait_def)

lemma log_full:
  "queue_full lg \<Longrightarrow>
     snd (log lg now new_id etype lvl msg aid aname dat dur parent) =
       lg\<lparr>events_dropped := events_dropped lg + 1\<rparr>"
  by (simp add: log_def Let_def put_nowait_def queue_full_def)

lemma log_not_full:
  "\<not> queue_full lg \<Longrightarrow>
     snd (log lg now new_id etype lvl msg aid aname dat dur parent) =
       lg\<lparr>log_queue := log_queue lg @
          [\<lparr>timestamp = now, LogEvent.session_id = logger_session_id lg,
            event_type = event_type_value etype, level = level_value lvl,
            LogEvent.agent_id = aid, agent_name = aname, message = msg,
            data = (case dat of None \<Rightarrow> [] | Some d \<Rightarrow> d),
            duration_ms = dur, parent_event_id = parent, event_id = new_id\<rparr>]\<rparr>"
  by (auto simp: log_def Let_def put_nowait_def queue_full_def)

lemma log_queue_bounded:
  assumes "0 < maxsize lg" and "int (length (log_queue lg)) \<le> maxsize lg"
  shows "int (length (log_queue (snd (log lg now new_id etype lvl msg aid aname dat dur parent))))
           \<le> maxsize lg
       \<and> maxsize (snd (log lg now new_id etype lvl msg aid aname dat dur parent)) = maxsize lg"
proof (cases "queue_full lg")
  case True
  then show ?thesis using assms by (simp add: log_full)
next
  case False
  then have "int (length (log_queue lg)) < maxsize lg" using assms by (simp add: queue_full_def)
  then show ?thesis using False by (simp add: log_not_full)
qed

lemma truncate_to_bound:
  "truncate_to limit xs = (case bound_of limit of None \<Rightarrow> xs | Some k \<Rightarrow> take k xs)"
  by (simp add: truncate_to_def bound_of_def split: option.splits)

lemma limit_reached_bound:
  "events \<noteq> [] \<Longrightarrow>
     limit_reached limit events \<longleftrightarrow> (case bound_of limit of None \<Rightarrow> False | Some k \<Rightarrow> k \<le> length events)"
  by (cases events) (auto simp: limit_reached_def bound_of_def split: option.splits)

lemma bound_pos: "bound_of limit = Some k \<Longrightarrow> 0 < k"
  by (auto simp: bound_of_def split: option.splits if_splits)

lemma filter_rejects_safe:
  "is_object event \<or> \<not> filter_active f \<Longrightarrow>
     filter_rejects f k event = Inr (\<not> field_matches f k event)"
  by (cases event; cases f)
     (auto simp: filter_rejects_def field_matches_def is_object_def filter_active_def dict_get_def)

lemma file_events_Cons:
  "file_events loads strip (line # rest) =
     (case loads (strip line) of Inl e \<Rightarrow> file_events loads strip rest
      | Inr j \<Rightarrow> j # file_events loads strip rest)"
  by (simp add: file_events_def List.map_filter_simps split: sum.splits)

lemma read_loop_result:
  assumes "list_all (harmless_line loads strip etype lvl) lines"
    and "case bound_of limit of None \<Rightarrow> True | Some k \<Rightarrow> length acc < k"
  shows "read_loop loads strip etype lvl limit (map Inr lines) acc =
           Inr (truncate_to limit
                  (acc @ filter (event_matches etype lvl) (file_events loads strip lines)))"
  using assms
proof (induction lines arbitrary: acc)
  case Nil
  then show ?case
    by (auto simp: truncate_to_bound file_events_def List.map_filter_simps split: option.splits)
next
  case (Cons line rest)
  note IH = Cons.IH
  have rest_safe: "list_all (harmless_line loads strip etype lvl) rest"
    using Cons.prems(1) by simp
  have line_safe: "harmless_line loads strip etype lvl line"
    using Cons.prems(1) by simp
  show ?case
  proof (cases "loads (strip line)")
    case (Inl e)
    then have "e = JSONDecodeError" using line_safe by (simp add: harmless_line_def)
    then show ?thesis using Inl IH [OF rest_safe Cons.prems(2)] by (simp add: file_events_Cons)
  next
    case (Inr event)
    then have safe: "is_object event \<or> (\<not> filter_active etype \<and> \<not> filter_active lvl)"
      using line_safe by (simp add: harmless_line_def)
    have r1: "filter_rejects etype ''event_type'' event = Inr (\<not> field_matches etype ''event_type'' event)"
      using safe by (intro filter_rejects_safe) blast
    have r2: "filter_rejects lvl ''level'' event = Inr (\<not> field_matches lvl ''level'' event)"
      using safe by (intro filter_rejects_safe) blast
    show ?thesis
    proof (cases "event_matches etype lvl event")
      case False
      then have "read_loop loads strip etype lvl limit (map Inr (line # rest)) acc =
                 read_loop loads strip etype lvl limit (map Inr rest) acc"
        using Inr r1 r2
        by (cases "field_matches etype ''event_type'' event";
            cases "field_matches lvl ''level'' event") (simp_all add: event_matches_def)
      then show ?thesis using IH [OF rest_safe Cons.prems(2)] Inr False
        by (simp add: file_events_Cons)
    next
      case True
      let ?acc' = "acc @ [event]"
      let ?rest = "filter (event_matches etype lvl) (file_events loads strip rest)"
      have step: "read_loop loads strip etype lvl limit (map Inr (line # rest)) acc =
          (if limit_reached limit ?acc' then Inr ?acc'
           else read_loop loads strip etype lvl limit (map Inr rest) ?acc')"
        using Inr r1 r2 True by (simp add: event_matches_def)
      have all: "acc @ filter (event_matches etype lvl) (file_events loads strip (line # rest))
          = ?acc' @ ?rest"
        using Inr True by (simp add: file_events_Cons)
      have lr: "limit_reached limit ?acc' \<longleftrightarrow>
                  (case bound_of limit of None \<Rightarrow> False | Some k \<Rightarrow> k \<le> length ?acc')"
        by (rule limit_reached_bound) simp
      show ?thesis
      proof (cases "limit_reached limit ?acc'")
        case True
        then obtain k where k: "bound_of limit = Some k" and kle: "k \<le> length ?acc'"
          using lr by (auto split: option.splits)
        have "length acc < k" using Cons.prems(2) k by simp
        then have "k = length ?acc'" using kle by simp
        then have "truncate_to limit (?acc' @ ?rest) = ?acc'"
          using k by (simp add: truncate_to_bound)
        then show ?thesis using step True all by simp
      next
        case False
        then have pre: "case bound_of limit of None \<Rightarrow> True | Some k \<Rightarrow> length ?acc' < k"
          using lr by (auto split: option.splits)
        show ?thesis using step False all IH [OF rest_safe pre] by simp
      qed
    qed
  qed
qed

lemma read_loop_limit_zero:
  "read_loop loads strip etype lvl (Some 0) reads acc =
     read_loop loads strip etype lvl None reads acc"
proof (induction reads arbitrary: acc)
  case Nil
  then show ?case by simp
next
  case (Cons r rest)
  show ?case
  proof (cases r)
    case (Inl e)
    then show ?thesis by simp
  next
    case (Inr line)
    then show ?thesis using Cons.IH
      by (auto simp: limit_reached_def split: option.splits sum.splits bool.splits)
  qed
qed

lemma read_logs_limit_zero:
  "read_logs joins loads strip fs aid etype lvl (Some 0) =
     read_logs joins loads strip fs aid etype lvl None"
  by (simp add: read_logs_def Let_def read_loop_limit_zero split: log_file.splits)


lemma read_logs_result:
  assumes "joins"
    and "fs (case aid of None \<Rightarrow> master_log_file
                | Some a \<Rightarrow> if a = [] then master_log_file else get_agent_log_file a)
           = Yields (map Inr lines)"
    and "list_all (harmless_line loads strip etype lvl) lines"
  shows "read_logs joins loads strip fs aid etype lvl limit =
           Some (Inr (truncate_to limit
                        (filter (event_matches etype lvl) (file_events loads strip lines))))"
proof -
  have pre: "case bound_of limit of None \<Rightarrow> True | Some k \<Rightarrow> length ([] :: json list) < k"
    using bound_pos by (auto split: option.splits)
  show ?thesis
    using assms(1,2) read_loop_result [OF assms(3) pre] by (simp add: read_logs_def Let_def)
qed


lemma mset_insort_desc: "mset (insort_desc f x xs) = add_mset x (mset xs)"
  by (induction xs) auto

lemma mset_sort_desc: "mset (sort_desc f xs) = mset xs"
  by (induction xs) (simp_all add: sort_desc_def mset_insort_desc)




lemma list_sessions_limit_zero:
  "list_sessions st sf (Some 0) = list_sessions st sf None"
  by (simp add: list_sessions_def Let_def)

lemma list_sessions_no_limit:
  "list_sessions st sf None =
     sort_desc SessionMetadata.created_at
       (filter (\<lambda>m. \<not> filter_active sf \<or> Some (SessionMetadata.status m) = sf)
          (map snd (sessions_index st)))"
proof (cases sf)
  case None
  then show ?thesis by (simp add: list_sessions_def Let_def filter_active_def)
next
  case (Some s)
  show ?thesis
  proof (cases "s = []")
    case True
    then show ?thesis using Some by (simp add: list_sessions_def Let_def filter_active_def)
  next
    case False
    then show ?thesis using Some by (simp add: list_sessions_def Let_def filter_active_def)
  qed
qed

text \<open>
  Claim C5.  \<open>log\<close> always returns the id of the event it built; when the bounded
  queue is full (\<open>maxsize > 0\<close> and at least \<open>maxsize\<close> items queued) the event is
  dropped, \<open>events_dropped\<close> grows by 1 and nothing else changes; otherwise the event is
  appended to the queue and nothing else changes.  \<open>put_nowait\<close> never waits, and its
  exception is caught, so the call neither blocks nor raises; a bounded queue stays
  within its bound.
\<close>

theorem log_drops_when_full:
  "fst (log lg now new_id etype lvl msg aid aname dat dur parent) = new_id
   \<and> (queue_full lg \<longleftrightarrow> 0 < maxsize lg \<and> maxsize lg \<le> int (length (log_queue lg)))
   \<and> (queue_full lg \<longrightarrow>
        snd (log lg now new_id etype lvl msg aid aname dat dur parent) =
          lg\<lparr>events_dropped := events_dropped lg + 1\<rparr>)
   \<and> (\<not> queue_full lg \<longrightarrow>
        snd (log lg now new_id etype lvl msg aid aname dat dur parent) =
          lg\<lparr>log_queue := log_queue lg @
             [\<lparr>timestamp = now, LogEvent.session_id = logger_session_id lg,
               event_type = event_type_value etype, level = level_value lvl,
               LogEvent.agent_id = aid, agent_name = aname, message = msg,
               data = (case dat of None \<Rightarrow> [] | Some d \<Rightarrow> d),
               duration_ms = dur, parent_event_id = parent, event_id = new_id\<rparr>]\<rparr>)
   \<and> (0 < maxsize lg \<and> int (length (log_queue lg)) \<le> maxsize lg \<longrightarrow>
        int (length (log_queue (snd (log lg now new_id etype lvl msg aid aname dat dur parent))))
          \<le> maxsize lg)"
  using log_returns_id [of lg now new_id etype lvl msg aid aname dat dur parent]
    log_full [of lg now new_id etype lvl msg aid aname dat dur parent]
    log_not_full [of lg now new_id etype lvl msg aid aname dat dur parent]
    log_queue_bounded [of lg now new_id etype lvl msg aid aname dat dur parent]
  by (simp add: queue_full_def)

theorem log_drops_when_full_witness:
  "\<not> queue_full \<lparr>logger_session_id = ''s1'', log_queue = ([] :: string LogEvent list),
                  maxsize = 1, events_logged = 0, events_dropped = 0\<rparr>
   \<and> log \<lparr>logger_session_id = ''s1'', log_queue = ([] :: string LogEvent list),
           maxsize = 1, events_logged = 0, events_dropped = 0\<rparr>
        7 ''e1'' AGENT_STARTED INFO ''go'' (Some ''seo'') None None None None
      = (''e1'',
         \<lparr>logger_session_id = ''s1'',
          log_queue = [\<lparr>timestamp = 7, LogEvent.session_id = ''s1'',
                        event_type = ''agent_started'', level = ''INFO'',
                        LogEvent.agent_id = Some ''seo'', agent_name = None, message = ''go'',
                        data = [], duration_ms = None, parent_event_id = None,
                        event_id = ''e1''\<rparr>],
          maxsize = 1, events_logged = 0, events_dropped = 0\<rparr>)
   \<and> queue_full \<lparr>logger_session_id = ''s1'',
          log_queue = [\<lparr>timestamp = 7, LogEvent.session_id = ''s1'',
                        event_type = ''agent_started'', level = ''INFO'',
                        LogEvent.agent_id = Some ''seo'', agent_name = None, message = ''go'',
                        data = ([] :: (string \<times> string) list), duration_ms = None,
                        parent_event_id = None, event_id = ''e1''\<rparr>],
          maxsize = 1, events_logged = 0, events_dropped = 0\<rparr>
   \<and> log \<lparr>logger_session_id = ''s1'',
          log_queue = [\<lparr>timestamp = 7, LogEvent.session_id = ''s1'',
                        event_type = ''agent_started'', level = ''INFO'',
                        LogEvent.agent_id = Some ''seo'', agent_name = None, message = ''go'',
                        data = ([] :: (string \<times> string) list), duration_ms = None,
                        parent_event_id = None, event_id = ''e1''\<rparr>],
          maxsize = 1, events_logged = 0, events_dropped = 0\<rparr>
        8 ''e2'' TOOL_CALLED DEBUG ''call'' None None None None None
      = (''e2'',
         \<lparr>logger_session_id = ''s1'',
          log_queue = [\<lparr>timestamp = 7, LogEvent.session_id = ''s1'',
                        event_type = ''agent_started'', level = ''INFO'',
                        LogEvent.agent_id = Some ''seo'', agent_name = None, message = ''go'',
                        data = [], duration_ms = None, parent_event_id = None,
                        event_id = ''e1''\<rparr>],
          maxsize = 1, events_logged = 0, events_dropped = 1\<rparr>)"
proof -
  let ?lg0 = "\<lparr>logger_session_id = ''s1'', log_queue = ([] :: string LogEvent list),
               maxsize = 1, events_logged = 0, events_dropped = 0\<rparr>"
  let ?ev = "\<lparr>timestamp = 7, LogEvent.session_id = ''s1'',
                        event_type = ''agent_started'', level = ''INFO'',
                        LogEvent.agent_id = Some ''seo'', agent_name = None, message = ''go'',
                        data = ([] :: (string \<times> string) list), duration_ms = None,
                        parent_event_id = None, event_id = ''e1''\<rparr>"
  let ?lg1 = "\<lparr>logger_session_id = ''s1'', log_queue = [?ev],
               maxsize = 1, events_logged = 0, events_dropped = 0\<rparr>"
  have nf: "\<not> queue_full ?lg0" by (simp add: queue_full_def)
  have fl: "queue_full ?lg1" by (simp add: queue_full_def)
  note t0 = log_drops_when_full [of ?lg0 7 "''e1''" AGENT_STARTED INFO "''go''" "Some ''seo''"
      None None None None]
  note t1 = log_drops_when_full [of ?lg1 8 "''e2''" TOOL_CALLED DEBUG "''call''" None
      None None None None]
  from t0 nf have a: "log ?lg0 7 ''e1'' AGENT_STARTED INFO ''go'' (Some ''seo'') None None None None
      = (''e1'', ?lg1)"
    by (simp add: prod_eq_iff)
  from t1 fl have b: "log ?lg1 8 ''e2'' TOOL_CALLED DEBUG ''call'' None None None None None
      = (''e2'', ?lg1\<lparr>events_dropped := 1\<rparr>)"
    by (simp add: prod_eq_iff)
  show ?thesis using nf fl a b by simp
qed




text \<open>
  Claim C10 as stated: with limit 0 both functions return all matching entries.  For
  \<open>read_logs\<close> that fails where the unlimited call fails: here two lines of the file
  match the filter, the line between them is valid JSON but not an object, and the call
  with limit 0 raises \<open>AttributeError\<close> instead of returning the two entries.
\<close>

theorem limit_zero_non_object_line_counterexample:
  "filter (event_matches (Some ''agent_started'') None)
     (file_events
        (\<lambda>s. if s = ''A'' then Inr (JObj [(''event_type'', JStr ''agent_started'')])
             else if s = ''[]'' then Inr (JArr []) else Inl JSONDecodeError)
        (takeWhile (\<lambda>c. c \<noteq> CHR 0x0A))
        [[CHR ''A'', CHR 0x0A], [CHR ''['', CHR '']'', CHR 0x0A], [CHR ''A'', CHR 0x0A]])
     = [JObj [(''event_type'', JStr ''agent_started'')],
        JObj [(''event_type'', JStr ''agent_started'')]]
   \<and> read_logs True
        (\<lambda>s. if s = ''A'' then Inr (JObj [(''event_type'', JStr ''agent_started'')])
             else if s = ''[]'' then Inr (JArr []) else Inl JSONDecodeError)
        (takeWhile (\<lambda>c. c \<noteq> CHR 0x0A))
        (\<lambda>f. if f = ''session_timeseries.jsonl''
             then Yields [Inr [CHR ''A'', CHR 0x0A], Inr [CHR ''['', CHR '']'', CHR 0x0A],
                          Inr [CHR ''A'', CHR 0x0A]]
             else NoFile)
        None (Some ''agent_started'') None (Some 0)
     = Some (Inl AttributeError)"
  by (simp add: read_logs_def master_log_file_def filter_rejects_def dict_get_def
      limit_reached_def file_events_def List.map_filter_simps event_matches_def
      field_matches_def)

text \<open>
  Claim C10 (amended).  A limit of 0 is tested for truthiness and so means no limit:
  \<open>list_sessions\<close> with limit 0 returns every session that passes the status filter,
  newest first, and \<open>read_logs\<close> with limit 0 behaves exactly as with no limit.  It
  returns every matching event of the file when \<open>flush()\<close> returns, the file opens and
  decodes, \<open>json.loads\<close> raises nothing but \<open>JSONDecodeError\<close> on its lines, and every
  line that parses is a JSON object (or neither an event type nor a level filter is
  supplied).
\<close>

theorem limit_zero_means_no_limit:
  "list_sessions st sf (Some 0) = list_sessions st sf None
   \<and> list_sessions st sf (Some 0) =
       sort_desc SessionMetadata.created_at
         (filter (\<lambda>m. \<not> filter_active sf \<or> Some (SessionMetadata.status m) = sf)
            (map snd (sessions_index st)))
   \<and> mset (list_sessions st sf (Some 0)) =
       mset (filter (\<lambda>m. \<not> filter_active sf \<or> Some (SessionMetadata.status m) = sf)
               (map snd (sessions_index st)))
   \<and> read_logs joins loads strip fs aid etype lvl (Some 0)
       = read_logs joins loads strip fs aid etype lvl None
   \<and> (joins
       \<and> fs (case aid of None \<Rightarrow> master_log_file
              | Some a \<Rightarrow> if a = [] then master_log_file else get_agent_log_file a)
           = Yields (map Inr lines)
       \<and> list_all (harmless_line loads strip etype lvl) lines
      \<longrightarrow> read_logs joins loads strip fs aid etype lvl (Some 0) =
            Some (Inr (filter (event_matches etype lvl) (file_events loads strip lines))))"
proof -
  have a: "list_sessions st sf (Some 0) = list_sessions st sf None"
    by (rule list_sessions_limit_zero)
  have b: "list_sessions st sf (Some 0) =
       sort_desc SessionMetadata.created_at
         (filter (\<lambda>m. \<not> filter_active sf \<or> Some (SessionMetadata.status m) = sf)
            (map snd (sessions_index st)))"
    using a list_sessions_no_limit [of st sf] by simp
  have c: "mset (list_sessions st sf (Some 0)) =
       mset (filter (\<lambda>m. \<not> filter_active sf \<or> Some (SessionMetadata.status m) = sf)
               (map snd (sessions_index st)))"
    unfolding b by (rule mset_sort_desc)
  have d: "read_logs joins loads strip fs aid etype lvl (Some 0)
      = read_logs joins loads strip fs aid etype lvl None"
    by (rule read_logs_limit_zero)
  have e: "joins
       \<and> fs (case aid of None \<Rightarrow> master_log_file
              | Some a \<Rightarrow> if a = [] then master_log_file else get_agent_log_file a)
           = Yields (map Inr lines)
       \<and> list_all (harmless_line loads strip etype lvl) lines
      \<longrightarrow> read_logs joins loads strip fs aid etype lvl (Some 0) =
            Some (Inr (filter (event_matches etype lvl) (file_events loads strip lines)))"
    using read_logs_result [of joins fs aid lines loads strip etype lvl "Some 0"]
    by (simp add: truncate_to_def)
  show ?thesis using a b c d e by blast
qed

theorem limit_zero_means_no_limit_witness:
  "(\<lambda>f. if f = ''session_timeseries.jsonl''
         then Yields (map Inr [[CHR ''A'', CHR 0x0A], [CHR ''x'', CHR 0x0A], [CHR ''A'', CHR 0x0A]])
         else NoFile)
      (case None of None \<Rightarrow> master_log_file
       | Some a \<Rightarrow> if a = [] then master_log_file else get_agent_log_file a)
     = Yields (map Inr [[CHR ''A'', CHR 0x0A], [CHR ''x'', CHR 0x0A], [CHR ''A'', CHR 0x0A]])
   \<and> list_all
        (harmless_line
           (\<lambda>s. if s = ''A'' then Inr (JObj [(''event_type'', JStr ''agent_started'')])
                else Inl JSONDecodeError)
           (takeWhile (\<lambda>c. c \<noteq> CHR 0x0A)) (Some ''agent_started'') None)
        [[CHR ''A'', CHR 0x0A], [CHR ''x'', CHR 0x0A], [CHR ''A'', CHR 0x0A]]
   \<and> read_logs True
        (\<lambda>s. if s = ''A'' then Inr (JObj [(''event_type'', JStr ''agent_started'')])
             else Inl JSONDecodeError)
        (takeWhile (\<lambda>c. c \<noteq> CHR 0x0A))
        (\<lambda>f. if f = ''session_timeseries.jsonl''
             then Yields (map Inr [[CHR ''A'', CHR 0x0A], [CHR ''x'', CHR 0x0A],
                                   [CHR ''A'', CHR 0x0A]])
             else NoFile)
        None (Some ''agent_started'') None (Some 0)
     = Some (Inr [JObj [(''event_type'', JStr ''agent_started'')],
                  JObj [(''event_type'', JStr ''agent_started'')]])
   \<and> list_sessions
        \<lparr>sessions_index =
           [(''s1'', \<lparr>SessionMetadata.session_id = ''s1'', SessionMetadata.created_at = 10,
                      SessionMetadata.status = ''completed'',
                      SessionMetadata.product_name = None, workflow_type = ''amazon_campaign'',
                      duration_seconds = 0, agent_count = 0, error_count = 0,
                      SessionMetadata.quality_score = None, completed_at = None,
                      archived_at = None\<rparr>),
            (''s2'', \<lparr>SessionMetadata.session_id = ''s2'', SessionMetadata.created_at = 20,
                      SessionMetadata.status = ''completed'',
                      SessionMetadata.product_name = None, workflow_type = ''amazon_campaign'',
                      duration_seconds = 0, agent_count = 0, error_count = 0,
                      SessionMetadata.quality_score = None, completed_at = None,
                      archived_at = None\<rparr>)],
          retention_days = 7, session_dirs = {}\<rparr>
        (Some ''completed'') (Some 0)
     = [\<lparr>SessionMetadata.session_id = ''s2'', SessionMetadata.created_at = 20,
          SessionMetadata.status = ''completed'',
          SessionMetadata.product_name = None, workflow_type = ''amazon_campaign'',
          duration_seconds = 0, agent_count = 0, error_count = 0,
          SessionMetadata.quality_score = None, completed_at = None, archived_at = None\<rparr>,
        \<lparr>SessionMetadata.session_id = ''s1'', SessionMetadata.created_at = 10,
          SessionMetadata.status = ''completed'',
          SessionMetadata.product_name = None, workflow_type = ''amazon_campaign'',
          duration_seconds = 0, agent_count = 0, error_count = 0,
          SessionMetadata.quality_score = None, completed_at = None, archived_at = None\<rparr>]"
proof -
  let ?loads = "\<lambda>s. if s = ''A'' then Inr (JObj [(''event_type'', JStr ''agent_started'')])
             else Inl JSONDecodeError"
  let ?strip = "takeWhile (\<lambda>c. c \<noteq> CHR 0x0A)"
  let ?lines = "[[CHR ''A'', CHR 0x0A], [CHR ''x'', CHR 0x0A], [CHR ''A'', CHR 0x0A]]"
  let ?fs = "\<lambda>f. if f = ''session_timeseries.jsonl'' then Yields (map Inr ?lines) else NoFile"
  let ?file = "case (None :: string option) of None \<Rightarrow> master_log_file
       | Some a \<Rightarrow> if a = [] then master_log_file else get_agent_log_file a"
  let ?m1 = "\<lparr>SessionMetadata.session_id = ''s1'', SessionMetadata.created_at = 10,
                      SessionMetadata.status = ''completed'',
                      SessionMetadata.product_name = None, workflow_type = ''amazon_campaign'',
                      duration_seconds = 0, agent_count = 0, error_count = 0,
                      SessionMetadata.quality_score = None, completed_at = None,
                      archived_at = None\<rparr>"
  let ?m2 = "\<lparr>SessionMetadata.session_id = ''s2'', SessionMetadata.created_at = 20,
                      SessionMetadata.status = ''completed'',
                      SessionMetadata.product_name = None, workflow_type = ''amazon_campaign'',
                      duration_seconds = 0, agent_count = 0, error_count = 0,
                      SessionMetadata.quality_score = None, completed_at = None,
                      archived_at = None\<rparr>"
  let ?st = "\<lparr>sessions_index = [(''s1'', ?m1), (''s2'', ?m2)],
          retention_days = 7, session_dirs = {}\<rparr>"
  have h1: "?fs ?file = Yields (map Inr ?lines)"
    by (simp add: master_log_file_def)
  have h2: "list_all (harmless_line ?loads ?strip (Some ''agent_started'') None) ?lines"
    by (simp add: harmless_line_def is_object_def)
  note t = limit_zero_means_no_limit [of ?st "Some ''completed''" True ?loads ?strip ?fs None
      "Some ''agent_started''" None ?lines]
  from t h1 h2 have
    "read_logs True ?loads ?strip ?fs None (Some ''agent_started'') None (Some 0) =
      Some (Inr (filter (event_matches (Some ''agent_started'') None)
                   (file_events ?loads ?strip ?lines)))"
    by blast
  then have r: "read_logs True ?loads ?strip ?fs None (Some ''agent_started'') None (Some 0) =
      Some (Inr [JObj [(''event_type'', JStr ''agent_started'')],
                 JObj [(''event_type'', JStr ''agent_started'')]])"
    by (simp add: file_events_def List.map_filter_simps event_matches_def field_matches_def)
  from t have "list_sessions ?st (Some ''completed'') (Some 0) =
       sort_desc SessionMetadata.created_at
         (filter (\<lambda>m. \<not> filter_active (Some ''completed'')
                        \<or> Some (SessionMetadata.status m) = Some ''completed'')
            (map snd (sessions_index ?st)))"
    by blast
  then have l: "list_sessions ?st (Some ''completed'') (Some 0) = [?m2, ?m1]"
    by (simp add: sort_desc_def filter_active_def)
  show ?thesis using h1 h2 r l by blast
qed

subsection \<open>Rounding to a double\<close>

lemma powi_nat: "0 \<le> k \<Longrightarrow> (2::rat) powi k = of_int (2 ^ nat k)"
  by (simp add: power_int_def)

lemma powi_neg_nat: "0 \<le> k \<Longrightarrow> (2::rat) powi (- k) = 1 / of_int (2 ^ nat k)"
  by (simp only: power_int_minus_divide powi_nat)

lemma floor_log2_ge1:
  assumes "1 \<le> x"
  shows "2 powi floor_log2 x \<le> x \<and> x < 2 powi (floor_log2 x + 1)"
proof -
  let ?n = "\<lfloor>x\<rfloor>"
  let ?b = "bitlen ?n"
  have n: "1 \<le> ?n" using assms by (simp add: le_floor_iff)
  then have bb: "2 ^ nat (?b - 1) \<le> ?n" "?n < 2 ^ nat ?b"
    using bitlen_bounds [of ?n] by auto
  have b1: "1 \<le> ?b" using n bitlen_eq_zero_iff [of ?n] bitlen_nonneg [of ?n] by linarith
  have fl: "floor_log2 x = ?b - 1" using assms by (simp add: floor_log2_def)
  have "(of_int (2 ^ nat (?b - 1)) :: rat) \<le> of_int ?n" using bb(1) by (simp only: of_int_le_iff)
  also have "\<dots> \<le> x" by simp
  finally have lo: "2 powi (?b - 1) \<le> x" using b1 by (simp add: powi_nat)
  have "?n + 1 \<le> 2 ^ nat ?b" using bb(2) by simp
  then have "(of_int (?n + 1) :: rat) \<le> of_int (2 ^ nat ?b)" by (simp only: of_int_le_iff)
  moreover have "x < of_int (?n + 1)" by linarith
  ultimately have "x < of_int (2 ^ nat ?b)" by linarith
  then have hi: "x < 2 powi ?b" using b1 by (simp add: powi_nat)
  show ?thesis using lo hi fl by simp
qed

lemma floor_log2_lt1:
  assumes "0 < x" "x < 1"
  shows "2 powi floor_log2 x \<le> x \<and> x < 2 powi (floor_log2 x + 1)"
proof -
  define y where "y = 1 / x"
  define m where "m = \<lceil>y\<rceil> - 1"
  define k where "k = bitlen m"
  have y1: "1 < y" using assms by (simp add: y_def)
  have xy: "x = 1 / y" by (simp add: y_def)
  have my: "of_int m < y" "y \<le> of_int m + 1"
    using ceiling_correct [of y] by (auto simp: m_def)
  have m1: "1 \<le> m" using y1 by (simp add: m_def less_ceiling_iff)
  then have bb: "2 ^ nat (k - 1) \<le> m" "m < 2 ^ nat k"
    using bitlen_bounds [of m] by (auto simp: k_def)
  have k1: "1 \<le> k" using m1 bitlen_eq_zero_iff [of m] bitlen_nonneg [of m] unfolding k_def by linarith
  have fl: "floor_log2 x = - k" using assms by (simp add: floor_log2_def k_def m_def y_def)
  have "m + 1 \<le> 2 ^ nat k" using bb(2) by simp
  then have "(of_int (m + 1) :: rat) \<le> of_int (2 ^ nat k)" by (simp only: of_int_le_iff)
  moreover have "(of_int (m + 1) :: rat) = of_int m + 1" by simp
  ultimately have yk: "y \<le> of_int (2 ^ nat k)" using my(2) by linarith
  have "1 / of_int (2 ^ nat k) \<le> 1 / y"
    using yk y1 by (intro divide_left_mono) auto
  then have lo: "2 powi (- k) \<le> x" using k1 xy by (simp only: powi_neg_nat)
  have "(of_int (2 ^ nat (k - 1)) :: rat) \<le> of_int m" using bb(1) by (simp only: of_int_le_iff)
  then have ky: "of_int (2 ^ nat (k - 1)) < y" using my(1) by linarith
  have "1 / y < 1 / of_int (2 ^ nat (k - 1))"
    using ky y1 by (intro divide_strict_left_mono mult_pos_pos) auto
  moreover have "(2::rat) powi (- k + 1) = 1 / of_int (2 ^ nat (k - 1))"
    using powi_neg_nat [of "k - 1"] k1 by simp
  ultimately have hi: "x < 2 powi (- k + 1)" using xy by simp
  show ?thesis using lo hi fl by simp
qed

lemma floor_log2_bounds:
  assumes "0 < x"
  shows "2 powi floor_log2 x \<le> x \<and> x < 2 powi (floor_log2 x + 1)"
  using assms floor_log2_ge1 [of x] floor_log2_lt1 [of x] by (cases "1 \<le> x") auto

lemma floor_log2_unique:
  assumes "0 < x" "2 powi e \<le> x" "x < 2 powi (e + 1)"
  shows "floor_log2 x = e"
proof -
  let ?f = "floor_log2 x"
  have b: "2 powi ?f \<le> x" "x < 2 powi (?f + 1)" using floor_log2_bounds [OF assms(1)] by auto
  have "\<not> ?f < e"
  proof
    assume "?f < e"
    then have "(2::rat) powi (?f + 1) \<le> 2 powi e" by (intro power_int_increasing) auto
    then show False using b(2) assms(2) by linarith
  qed
  moreover have "\<not> e < ?f"
  proof
    assume "e < ?f"
    then have "(2::rat) powi (e + 1) \<le> 2 powi ?f" by (intro power_int_increasing) auto
    then show False using b(1) assms(3) by linarith
  qed
  ultimately show ?thesis by linarith
qed


lemma round_half_even_le: "x \<le> of_int n \<Longrightarrow> round_half_even x \<le> n"
proof -
  assume a: "x \<le> of_int n"
  have f: "\<lfloor>x\<rfloor> \<le> n" using a by (metis floor_of_int floor_mono)
  show ?thesis
  proof (cases "\<lfloor>x\<rfloor> = n")
    case True
    then have "x - of_int \<lfloor>x\<rfloor> \<le> 0" using a by simp
    then show ?thesis using True by (simp add: round_half_even_def Let_def)
  next
    case False
    then have "\<lfloor>x\<rfloor> + 1 \<le> n" using f by simp
    then show ?thesis by (auto simp: round_half_even_def Let_def)
  qed
qed

lemma round_half_even_ge: "of_int n \<le> x \<Longrightarrow> n \<le> round_half_even x"
proof -
  assume a: "of_int n \<le> x"
  have f: "n \<le> \<lfloor>x\<rfloor>" using a by (simp add: le_floor_iff)
  then show ?thesis by (auto simp: round_half_even_def Let_def)
qed


lemma round_double_scaled:
  assumes "x \<noteq> 0" "2 powi (q + 52) \<le> \<bar>x\<bar>" "\<bar>x\<bar> < 2 powi (q + 53)" "- 1074 \<le> q"
  shows "round_double x = of_int (round_half_even (x / 2 powi q)) * 2 powi q"
proof -
  have "floor_log2 \<bar>x\<bar> = q + 52"
    using assms(1-3) by (intro floor_log2_unique) (auto simp: add.commute)
  then show ?thesis using assms(1,4) by (simp add: round_double_def Let_def max_def)
qed

lemma round_double_subnormal:
  assumes "x \<noteq> 0" "\<bar>x\<bar> < 2 powi (- 1022)"
  shows "round_double x = of_int (round_half_even (x / 2 powi (- 1074))) * 2 powi (- 1074)"
proof -
  have pos: "0 < \<bar>x\<bar>" using assms(1) by simp
  have "\<not> - 1022 \<le> floor_log2 \<bar>x\<bar>"
  proof
    assume "- 1022 \<le> floor_log2 \<bar>x\<bar>"
    then have "(2::rat) powi (- 1022) \<le> 2 powi floor_log2 \<bar>x\<bar>"
      by (intro power_int_increasing) auto
    then show False using floor_log2_bounds [OF pos] assms(2) by linarith
  qed
  then have "max (floor_log2 \<bar>x\<bar> - 52) (- 1074) = - 1074" by simp
  then show ?thesis using assms(1) by (simp add: round_double_def Let_def)
qed

lemma round_double_quantum:
  "\<exists>q. - 1074 \<le> q \<and> (x \<noteq> 0 \<longrightarrow> floor_log2 \<bar>x\<bar> - 52 \<le> q)
      \<and> round_double x = of_int (round_half_even (x / 2 powi q)) * 2 powi q"
  by (rule exI [of _ "max (floor_log2 \<bar>x\<bar> - 52) (- 1074)"])
    (simp add: round_double_def Let_def round_half_even_def)

lemma powi_diff_nat: "q' \<le> q \<Longrightarrow> (2::rat) powi q / 2 powi q' = of_int (2 ^ nat (q - q'))"
  using power_int_diff [of "2::rat" q q'] powi_nat [of "q - q'"] by simp





lemma round_double_nonneg: "0 \<le> x \<Longrightarrow> 0 \<le> round_double x"
proof -
  assume a: "0 \<le> x"
  have "0 \<le> round_half_even (x / 2 powi q)" for q
    using a by (intro round_half_even_ge) (simp add: zero_less_power_int less_imp_le)
  then show ?thesis by (simp add: round_double_def Let_def zero_less_power_int less_imp_le)
qed

lemma round_double_le_pow2:
  assumes "x \<le> 2 powi k" "- 1074 \<le> k"
  shows "round_double x \<le> 2 powi k"
proof (cases "x \<le> 0")
  case True
  have "round_half_even (x / 2 powi q) \<le> 0" for q
    using True by (intro round_half_even_le) (simp add: zero_less_power_int divide_nonpos_pos)
  then have "round_double x \<le> 0"
    by (simp add: round_double_def Let_def mult_nonpos_nonneg less_imp_le)
  moreover have "(0::rat) < 2 powi k" by simp
  ultimately show ?thesis by linarith
next
  case False
  then have pos: "0 < \<bar>x\<bar>" and ax: "\<bar>x\<bar> = x" by auto
  define q where "q = max (floor_log2 \<bar>x\<bar> - 52) (- 1074)"
  have rd: "round_double x = of_int (round_half_even (x / 2 powi q)) * 2 powi q"
    using False by (auto simp: round_double_def Let_def q_def)
  have "\<not> k < floor_log2 \<bar>x\<bar>"
  proof
    assume "k < floor_log2 \<bar>x\<bar>"
    then have "(2::rat) powi (k + 1) \<le> 2 powi floor_log2 \<bar>x\<bar>"
      by (intro power_int_increasing) auto
    moreover have "(2::rat) powi k < 2 powi (k + 1)" by (intro power_int_strict_increasing) auto
    ultimately show False using floor_log2_bounds [OF pos] assms(1) ax by linarith
  qed
  then have qk: "q \<le> k" using assms(2) by (simp add: q_def)
  have p: "(0::rat) < 2 powi q" by (simp add: zero_less_power_int)
  have "x / 2 powi q \<le> 2 powi k / 2 powi q" using assms(1) p by (simp add: divide_right_mono)
  also have "\<dots> = of_int (2 ^ nat (k - q))" by (rule powi_diff_nat [OF qk])
  finally have "round_half_even (x / 2 powi q) \<le> 2 ^ nat (k - q)" by (rule round_half_even_le)
  then have "(of_int (round_half_even (x / 2 powi q)) :: rat) \<le> of_int (2 ^ nat (k - q))"
    by (simp only: of_int_le_iff)
  then have "round_double x \<le> of_int (2 ^ nat (k - q)) * 2 powi q"
    unfolding rd using p by (simp add: mult_right_mono)
  also have "\<dots> = 2 powi k"
    using powi_diff_nat [OF qk] p by (simp add: field_simps)
  finally show ?thesis .
qed









lemma float_ratio_nonneg: "0 \<le> float_ratio a b"
  by (simp add: float_ratio_def round_double_nonneg)

lemma float_ratio_le_1: "a \<le> b \<Longrightarrow> float_ratio a b \<le> 1"
proof -
  assume "a \<le> b"
  then have "(of_nat a :: rat) / of_nat b \<le> 1" by (cases "b = 0") (simp_all add: divide_le_eq)
  then have "round_double (of_nat a / of_nat b) \<le> 2 powi 0"
    by (intro round_double_le_pow2) simp_all
  then show ?thesis by (simp add: float_ratio_def)
qed

lemma float_of_decimal_nonneg: "0 \<le> x \<Longrightarrow> 0 \<le> float_of_decimal x"
  by (simp add: float_of_decimal_def round_double_nonneg)

lemma float_add_nonneg: "0 \<le> x \<Longrightarrow> 0 \<le> y \<Longrightarrow> 0 \<le> float_add x y"
  by (simp add: float_add_def round_double_nonneg)

lemma float_mul_nonneg: "0 \<le> x \<Longrightarrow> 0 \<le> y \<Longrightarrow> 0 \<le> float_mul x y"
  by (simp add: float_mul_def round_double_nonneg)

lemma float_0_4_le: "float_of_decimal (4 / 10) \<le> 1 / 2"
proof -
  have "round_double (4 / 10) \<le> 2 powi (- 1)" by (intro round_double_le_pow2) simp_all
  then show ?thesis by (simp add: float_of_decimal_def power_int_minus_divide)
qed

lemma float_0_2_le: "float_of_decimal (2 / 10) \<le> 1 / 4"
proof -
  have "round_double (2 / 10) \<le> 2 powi (- 2)" by (intro round_double_le_pow2) simp_all
  then show ?thesis by (simp add: float_of_decimal_def power_int_minus_divide)
qed

subsection \<open>The memory tiers and the campaign templates\<close>



lemma word_set_finite: "finite (word_set lower split s)"
  by (simp add: word_set_def)






lemma similarity_in_range:
  "0 \<le> similarity_spec lower split cat kws audience t
   \<and> similarity_spec lower split cat kws audience t \<le> 2"
proof -
  define ks where "ks = (case kws of None \<Rightarrow> [] | Some ks \<Rightarrow> ks)"
  define ta where "ta = (case audience of None \<Rightarrow> [] | Some ta \<Rightarrow> ta)"
  define s1 where "s1 =
    (if (case cat of None \<Rightarrow> False | Some c \<Rightarrow> c \<noteq> [] \<and> lower (category t) = lower c)
     then float_of_decimal (4 / 10) else 0)"
  define q2 where "q2 = float_ratio (card (set ks \<inter> set (keywords t)))
      (max (length ks) (length (keywords t)))"
  define q3 where "q3 = float_ratio
      (card (word_set lower split ta \<inter> word_set lower split (target_audience t)))
      (max (card (word_set lower split ta)) (card (word_set lower split (target_audience t))))"
  define p2 where "p2 = float_mul (float_of_decimal (4 / 10)) q2"
  define p3 where "p3 = float_mul (float_of_decimal (2 / 10)) q3"
  define s2 where "s2 = float_add s1 p2"
  have spec: "similarity_spec lower split cat kws audience t = float_add s2 p3"
    by (simp add: similarity_spec_def Let_def s2_def s1_def p2_def p3_def q2_def q3_def
        ks_def ta_def)
  have s1: "0 \<le> s1" "s1 \<le> 1 / 2"
    using float_0_4_le by (simp_all add: s1_def float_of_decimal_nonneg)
  have "card (set ks \<inter> set (keywords t)) \<le> card (set ks)" by (intro card_mono) auto
  also have "\<dots> \<le> length ks" by (rule card_length)
  finally have "card (set ks \<inter> set (keywords t)) \<le> max (length ks) (length (keywords t))"
    by simp
  then have q2: "0 \<le> q2" "q2 \<le> 1"
    by (simp_all add: q2_def float_ratio_nonneg float_ratio_le_1)
  have "card (word_set lower split ta \<inter> word_set lower split (target_audience t))
      \<le> card (word_set lower split ta)"
    by (intro card_mono) (auto simp: word_set_finite)
  then have q3: "0 \<le> q3" "q3 \<le> 1"
    by (simp_all add: q3_def float_ratio_nonneg float_ratio_le_1)
  have c4: "0 \<le> float_of_decimal (4 / 10)" and c2: "0 \<le> float_of_decimal (2 / 10)"
    by (simp_all add: float_of_decimal_nonneg)
  have "float_of_decimal (4 / 10) * q2 \<le> 1 / 2 * 1"
    using c4 q2 float_0_4_le by (intro mult_mono) simp_all
  then have "round_double (float_of_decimal (4 / 10) * q2) \<le> 2 powi (- 1)"
    by (intro round_double_le_pow2) (simp_all add: power_int_minus_divide)
  then have p2: "0 \<le> p2" "p2 \<le> 1 / 2"
    using c4 q2 by (simp_all add: p2_def float_mul_nonneg, simp add: float_mul_def power_int_minus_divide)
  have "float_of_decimal (2 / 10) * q3 \<le> 1 / 4 * 1"
    using c2 q3 float_0_2_le by (intro mult_mono) simp_all
  then have "round_double (float_of_decimal (2 / 10) * q3) \<le> 2 powi (- 2)"
    by (intro round_double_le_pow2) (simp_all add: power_int_minus_divide)
  then have p3: "0 \<le> p3" "p3 \<le> 1 / 4"
    using c2 q3 by (simp_all add: p3_def float_mul_nonneg, simp add: float_mul_def power_int_minus_divide)
  have "round_double (s1 + p2) \<le> 2 powi 0"
    using s1 p2 by (intro round_double_le_pow2) simp_all
  then have s2: "0 \<le> s2" "s2 \<le> 1"
    using s1 p2 by (simp_all add: s2_def float_add_nonneg, simp add: float_add_def)
  have "round_double (s2 + p3) \<le> 2 powi 1"
    using s2 p3 by (intro round_double_le_pow2) simp_all
  then have "float_add s2 p3 \<le> 2" by (simp add: float_add_def)
  moreover have "0 \<le> float_add s2 p3" using s2 p3 by (simp add: float_add_nonneg)
  ultimately show ?thesis unfolding spec by simp
qed









lemma length_slice_to_neg: "n < 0 \<Longrightarrow> length (slice_to n xs) = length xs - nat (- n)"
  by (simp add: slice_to_def)





lemma set_update_subset: "set (AList.update k v al) \<subseteq> insert (k, v) (set al)"
  by (induction al) auto

lemma save_template_index:
  "templates_index (snd (save_campaign_template st now write_ok md5 pname cat score audience kws
       listing social metrics tgs)) =
     AList.update (make_template_id md5 pname cat (mm_session_id st))
       \<lparr>template_id = make_template_id md5 pname cat (mm_session_id st),
        CampaignTemplate.product_name = pname, category = cat,
        CampaignTemplate.quality_score = score, CampaignTemplate.created_at = now,
        CampaignTemplate.session_id = mm_session_id st, target_audience = audience,
        keywords = kws, listing_structure = listing, social_strategy = social,
        success_metrics = metrics,
        CampaignTemplate.tags = (case tgs of None \<Rightarrow> [] | Some ts \<Rightarrow> ts)\<rparr>
       (templates_index st)"
  by (simp add: save_campaign_template_def Let_def)

lemma save_template_recorded:
  "map_option CampaignTemplate.quality_score
     (map_of (templates_index (snd (save_campaign_template st now write_ok md5 pname cat score
        audience kws listing social metrics tgs)))
        (make_template_id md5 pname cat (mm_session_id st))) = Some score"
  by (simp add: save_template_index update_conv')

lemma save_template_returns:
  "fst (save_campaign_template st now write_ok md5 pname cat score audience kws
       listing social metrics tgs) =
     (if write_ok then Inr (make_template_id md5 pname cat (mm_session_id st)) else Inl OSError)"
  by (simp add: save_campaign_template_def Let_def)

lemma all_approved_iff:
  "all_approved st \<longleftrightarrow>
     (\<forall>(tid, t) \<in> set (templates_index st). approval_threshold \<le> CampaignTemplate.quality_score t)"
  by (simp add: all_approved_def list_all_iff)

lemma workflow_save_preserves:
  assumes "all_approved st"
  shows "all_approved (workflow_save_template st now write_ok md5 pname cat score audience kws
           listing social metrics tgs)"
proof (cases "approval_threshold \<le> score")
  case False
  then show ?thesis using assms by (simp add: workflow_save_template_def)
next
  case True
  let ?st' = "snd (save_campaign_template st now write_ok md5 pname cat score audience kws
                 listing social metrics tgs)"
  have "approval_threshold \<le> CampaignTemplate.quality_score t"
    if "(tid, t) \<in> set (templates_index ?st')" for tid t
  proof -
    from that have "(tid, t) \<in> insert (make_template_id md5 pname cat (mm_session_id st),
        \<lparr>template_id = make_template_id md5 pname cat (mm_session_id st),
        CampaignTemplate.product_name = pname, category = cat,
        CampaignTemplate.quality_score = score, CampaignTemplate.created_at = now,
        CampaignTemplate.session_id = mm_session_id st, target_audience = audience,
        keywords = kws, listing_structure = listing, social_strategy = social,
        success_metrics = metrics,
        CampaignTemplate.tags = (case tgs of None \<Rightarrow> [] | Some ts \<Rightarrow> ts)\<rparr>) (set (templates_index st))"
      unfolding save_template_index using set_update_subset by fastforce
    then show ?thesis using True assms by (auto simp: all_approved_iff)
  qed
  then have "all_approved ?st'" unfolding all_approved_iff by blast
  then show ?thesis using True by (simp add: workflow_save_template_def)
qed

lemma workflow_saves_preserve:
  "all_approved st \<Longrightarrow> all_approved (workflow_saves st md5 rs)"
  by (induction rs arbitrary: st) (simp_all add: workflow_save_preserves)

text \<open>
  Claim C4 as stated: \<open>save_campaign_template\<close> never records a template below the
  threshold.  The function has no such check: called with score 10 on an empty index it
  records the template.
\<close>

theorem save_template_below_threshold_counterexample:
  "all_approved (new_manager ''s1'' True 100 Map.empty Map.empty []
                   :: (nat, unit) EnhancedMemoryManager)
   \<and> map (\<lambda>(tid, t). CampaignTemplate.quality_score t)
        (templates_index (snd (save_campaign_template
           (new_manager ''s1'' True 100 Map.empty Map.empty [] :: (nat, unit) EnhancedMemoryManager)
           0 True (\<lambda>s. s) ''lamp'' ''Home'' 10 ''students'' [''led''] () () () None))) = [10]
   \<and> \<not> all_approved (snd (save_campaign_template
           (new_manager ''s1'' True 100 Map.empty Map.empty [] :: (nat, unit) EnhancedMemoryManager)
           0 True (\<lambda>s. s) ''lamp'' ''Home'' 10 ''students'' [''led''] () () () None))"
  by (simp add: all_approved_def save_campaign_template_def new_manager_def approval_threshold_def
      Let_def)

text \<open>
  Claim C4 (amended).  \<open>save_campaign_template\<close> records the template under its id with
  exactly the quality score it is given, whatever the score.  The threshold of 85 is
  applied by the calling workflow, which saves only when the overall score is at least
  85: a call with such a score keeps every indexed template at or above the threshold,
  and so does every sequence of saves made through the workflow.
\<close>

theorem templates_approved_through_workflow:
  "map_option CampaignTemplate.quality_score
     (map_of (templates_index (snd (save_campaign_template st now write_ok md5 pname cat score
        audience kws listing social metrics tgs)))
        (make_template_id md5 pname cat (mm_session_id st))) = Some score
   \<and> (all_approved st \<and> approval_threshold \<le> score \<longrightarrow>
        all_approved (snd (save_campaign_template st now write_ok md5 pname cat score
           audience kws listing social metrics tgs)))
   \<and> (all_approved st \<longrightarrow> all_approved (workflow_saves st md5 rs))
   \<and> (all_approved st \<longleftrightarrow>
        (\<forall>(tid, t) \<in> set (templates_index st).
           approval_threshold \<le> CampaignTemplate.quality_score t))"
proof -
  have b: "all_approved st \<and> approval_threshold \<le> score \<longrightarrow>
        all_approved (snd (save_campaign_template st now write_ok md5 pname cat score
           audience kws listing social metrics tgs))"
    using workflow_save_preserves [of st now write_ok md5 pname cat score audience kws listing
        social metrics tgs]
    by (auto simp: workflow_save_template_def)
  show ?thesis
    using b save_template_recorded [of st now write_ok md5 pname cat score audience kws listing
        social metrics tgs]
      workflow_saves_preserve [of st md5 rs] all_approved_iff [of st]
    by blast
qed

theorem templates_approved_through_workflow_witness:
  "all_approved (new_manager ''s1'' True 100 Map.empty Map.empty []
                   :: (nat, unit) EnhancedMemoryManager)
   \<and> approval_threshold \<le> 92
   \<and> all_approved (workflow_saves
        (new_manager ''s1'' True 100 Map.empty Map.empty [] :: (nat, unit) EnhancedMemoryManager)
        (\<lambda>s. s)
        [\<lparr>r_now = 1, r_write_ok = True, r_product_name = ''lamp'', r_category = ''Home'',
          r_overall_score = 92, r_target_audience = ''students'', r_keywords = [''led''],
          r_listing = (), r_social = (), r_metrics = (), r_tags = None\<rparr>,
         \<lparr>r_now = 2, r_write_ok = True, r_product_name = ''desk'', r_category = ''Home'',
          r_overall_score = 40, r_target_audience = ''students'', r_keywords = [''oak''],
          r_listing = (), r_social = (), r_metrics = (), r_tags = None\<rparr>])
   \<and> map (\<lambda>(tid, t). CampaignTemplate.quality_score t)
        (templates_index (workflow_saves
        (new_manager ''s1'' True 100 Map.empty Map.empty [] :: (nat, unit) EnhancedMemoryManager)
        (\<lambda>s. s)
        [\<lparr>r_now = 1, r_write_ok = True, r_product_name = ''lamp'', r_category = ''Home'',
          r_overall_score = 92, r_target_audience = ''students'', r_keywords = [''led''],
          r_listing = (), r_social = (), r_metrics = (), r_tags = None\<rparr>,
         \<lparr>r_now = 2, r_write_ok = True, r_product_name = ''desk'', r_category = ''Home'',
          r_overall_score = 40, r_target_audience = ''students'', r_keywords = [''oak''],
          r_listing = (), r_social = (), r_metrics = (), r_tags = None\<rparr>])) = [92]
   \<and> all_approved (snd (save_campaign_template
        (new_manager ''s1'' True 100 Map.empty Map.empty [] :: (nat, unit) EnhancedMemoryManager)
        1 True (\<lambda>s. s) ''lamp'' ''Home'' 92 ''students'' [''led''] () () () None))"
proof -
  let ?st = "new_manager ''s1'' True 100 Map.empty Map.empty [] :: (nat, unit) EnhancedMemoryManager"
  let ?rs = "[\<lparr>r_now = 1, r_write_ok = True, r_product_name = ''lamp'', r_category = ''Home'',
          r_overall_score = 92, r_target_audience = ''students'', r_keywords = [''led''],
          r_listing = (), r_social = (), r_metrics = (), r_tags = None\<rparr>,
         \<lparr>r_now = 2, r_write_ok = True, r_product_name = ''desk'', r_category = ''Home'',
          r_overall_score = 40, r_target_audience = ''students'', r_keywords = [''oak''],
          r_listing = (), r_social = (), r_metrics = (), r_tags = None\<rparr>]"
  have h: "all_approved ?st" by (simp add: all_approved_def new_manager_def)
  have h2: "approval_threshold \<le> 92" by (simp add: approval_threshold_def)
  note t = templates_approved_through_workflow [of ?st 1 True "\<lambda>s. s" "''lamp''" "''Home''" 92
      "''students''" "[''led'']" "()" "()" "()" None ?rs]
  from t h have c1: "all_approved (workflow_saves ?st (\<lambda>s. s) ?rs)" by blast
  from t h h2 have c2: "all_approved (snd (save_campaign_template ?st 1 True (\<lambda>s. s) ''lamp''
      ''Home'' 92 ''students'' [''led''] () () () None))" by blast
  have c3: "map (\<lambda>(tid, t). CampaignTemplate.quality_score t)
        (templates_index (workflow_saves ?st (\<lambda>s. s) ?rs)) = [92]"
    by (simp add: workflow_save_template_def save_campaign_template_def new_manager_def
        approval_threshold_def Let_def)
  show ?thesis using h h2 c1 c2 c3 by blast
qed

lemma retrieve_cache_hit:
  assumes "enable_caching st"
    and "fst (lru_get (mm_cache st) (cache_key aid mtype k)) = Some (Some v)"
  shows "retrieve st now aid k mtype =
           (Some v, st\<lparr>mm_cache := snd (lru_get (mm_cache st) (cache_key aid mtype k))\<rparr>)"
  using assms by (simp add: retrieve_def Let_def)

lemma touch_entry_caching:
  "enable_caching (touch_entry st now aid k mtype entry) = enable_caching st"
  by (simp add: touch_entry_def Let_def)

lemma retrieve_backing_hit:
  assumes "\<not> enable_caching st"
    and "backing_entry st aid k mtype = Some entry"
  shows "retrieve st now aid k mtype = (value entry, touch_entry st now aid k mtype entry)"
  using assms by (simp add: retrieve_def Let_def cache_update_def touch_entry_caching)

lemma touch_entry_short_term:
  "map_option (\<lambda>e. (accessed_at e, access_count e))
     (backing_entry (touch_entry st now aid k ''short_term'' entry) aid k ''short_term'')
   = Some (now, access_count entry + 1)"
  by (simp add: touch_entry_def backing_entry_def Let_def)

text \<open>
  Claim C3 on the code.  An entry is stored (which also fills the cache) and then
  retrieved.  The retrieval returns the value from the cache and leaves the stored entry
  as it was: \<open>access_count\<close> is still 0 and \<open>accessed_at\<close> is still the time of the
  store.  With the cache disabled the same two calls take the other path, which
  refreshes \<open>accessed_at\<close> and adds 1 to \<open>access_count\<close>.
\<close>

theorem retrieve_cache_hit_skips_access_metadata:
  "fst (retrieve
      (snd (store (new_manager ''s1'' True 100 Map.empty Map.empty []
                     :: (nat, unit) EnhancedMemoryManager)
              1 True (\<lambda>s. s) ''seo'' ''kw'' (Some 7) ''short_term'' None))
      2 ''seo'' ''kw'' ''short_term'') = Some 7
   \<and> map_option (\<lambda>e. (accessed_at e, access_count e))
       (backing_entry
          (snd (retrieve
             (snd (store (new_manager ''s1'' True 100 Map.empty Map.empty []
                            :: (nat, unit) EnhancedMemoryManager)
                     1 True (\<lambda>s. s) ''seo'' ''kw'' (Some 7) ''short_term'' None))
             2 ''seo'' ''kw'' ''short_term''))
          ''seo'' ''kw'' ''short_term'') = Some (1, 0)
   \<and> fst (retrieve
      (snd (store (new_manager ''s1'' False 100 Map.empty Map.empty []
                     :: (nat, unit) EnhancedMemoryManager)
              1 True (\<lambda>s. s) ''seo'' ''kw'' (Some 7) ''short_term'' None))
      2 ''seo'' ''kw'' ''short_term'') = Some 7
   \<and> map_option (\<lambda>e. (accessed_at e, access_count e))
       (backing_entry
          (snd (retrieve
             (snd (store (new_manager ''s1'' False 100 Map.empty Map.empty []
                            :: (nat, unit) EnhancedMemoryManager)
                     1 True (\<lambda>s. s) ''seo'' ''kw'' (Some 7) ''short_term'' None))
             2 ''seo'' ''kw'' ''short_term''))
          ''seo'' ''kw'' ''short_term'') = Some (2, 1)"
  by (simp add: retrieve_def store_def new_manager_def cache_update_def cache_key_def
      backing_entry_def touch_entry_def lru_put_def lru_get_def new_cache_def move_to_end_def
      keys_def Let_def)

end
